theory Spec2Isabelle
  imports Main
begin

section \<open>Strings\<close>

text \<open>
  Two string models are used. File names, prompts and wire values are \<open>string\<close>
  (lists of 8-bit characters, read as the code points 0..255). The texts the user
  interface prints contain Hangul syllables, which lie outside that range, so printed
  texts are lists of UTF-16 code units (\<open>ustring\<close>).
\<close>

type_synonym ustring = "nat list"

definition ascii :: "string \<Rightarrow> ustring" where
  "ascii s = map of_char s"

text \<open>Number-to-string conversion of an integer, as a template literal performs it.\<close>

fun decimal :: "nat \<Rightarrow> ustring" where
  "decimal n = (if n < 10 then [48 + n] else decimal (n div 10) @ [48 + n mod 10])"

declare decimal.simps [simp del]

definition numToString :: "int \<Rightarrow> ustring" where
  "numToString i = (if i < 0 then 45 # decimal (nat (- i)) else decimal (nat i))"

text \<open>
  \<open>String.prototype.trim\<close>: the characters ECMAScript removes (WhiteSpace and
  LineTerminator) that exist among the code points 0..255 are TAB, LF, VT, FF, CR,
  SPACE and NO-BREAK SPACE.
\<close>

definition js_whitespace :: "char \<Rightarrow> bool" where
  "js_whitespace c = ((of_char c :: nat) \<in> set [9, 10, 11, 12, 13, 32, 160])"

definition trim :: "string \<Rightarrow> string" where
  "trim s = rev (dropWhile js_whitespace (rev (dropWhile js_whitespace s)))"

text \<open>
  \<open>String.prototype.toLowerCase\<close> on the code points 0..255: A..Z and the
  Latin-1 capitals (U+00C0..U+00DE without the multiplication sign U+00D7) move up by 32.
\<close>

definition toLowerCase_char :: "char \<Rightarrow> char" where
  "toLowerCase_char c =
     (let n = (of_char c :: nat)
      in if (65 \<le> n \<and> n \<le> 90) \<or> (192 \<le> n \<and> n \<le> 222 \<and> n \<noteq> 215)
         then char_of (n + 32) else c)"

definition toLowerCase :: "string \<Rightarrow> string" where
  "toLowerCase s = map toLowerCase_char s"

text \<open>\<open>s.split(sep)\<close> for a one-character separator: never an empty array.\<close>

fun split :: "char \<Rightarrow> string \<Rightarrow> string list" where
  "split sep [] = [[]]"
| "split sep (x # xs) =
     (if x = sep then [] # split sep xs
      else (case split sep xs of
              [] \<Rightarrow> [[x]]
            | y # ys \<Rightarrow> (x # y) # ys))"

text \<open>\<open>Array.prototype.pop\<close>, read for its result: \<open>None\<close> is \<open>undefined\<close>.\<close>

definition pop :: "'a list \<Rightarrow> 'a option" where
  "pop xs = (if xs = [] then None else Some (last xs))"

text \<open>\<open>Array.prototype.join\<close>.\<close>

fun join :: "string \<Rightarrow> string list \<Rightarrow> string" where
  "join sep [] = []"
| "join sep [x] = x"
| "join sep (x # y # ys) = x @ sep @ join sep (y # ys)"


section \<open>Numbers\<close>

text \<open>
  The numbers of the duration computation are integer-valued doubles, so a number is an
  \<open>int\<close> and each operation rounds as IEEE 754 binary64 does (53 significant bits, ties
  to even); values stay far below the overflow threshold. \<open>round_half_even n d\<close> is the
  integer nearest to \<open>n / d\<close> for a positive \<open>d\<close>.
\<close>

fun bit_length :: "nat \<Rightarrow> nat" where
  "bit_length n = (if n = 0 then 0 else Suc (bit_length (n div 2)))"

declare bit_length.simps [simp del]

definition round_half_even :: "int \<Rightarrow> int \<Rightarrow> int" where
  "round_half_even n d =
     (let f = n div d; r = n mod d
      in if 2 * r < d then f
         else if 2 * r > d then f + 1
         else if even f then f else f + 1)"

text \<open>
  The double nearest to an integer: the result of a subtraction of two integer-valued
  doubles whose exact difference is \<open>n\<close>. An integer of more than 53 bits is rounded to a
  multiple of the power of two that its excess bits span.
\<close>

definition to_double :: "int \<Rightarrow> int" where
  "to_double n = (let p = bit_length (nat \<bar>n\<bar>) - 53 in 2 ^ p * round_half_even n (2 ^ p))"

text \<open>
  \<open>Math.floor(x / d)\<close> for an integer-valued double \<open>x\<close> and a positive integer
  \<open>d\<close>: the quotient is rounded to 53 significant bits, then floored. When the quotient is
  below \<open>2 ^ 53\<close>, \<open>mantissa_shift\<close> is the number of binary places the rounded
  quotient keeps after the point; otherwise \<open>mantissa_excess\<close> is the number of low bits
  it loses.
\<close>

function mantissa_shift :: "nat \<Rightarrow> nat \<Rightarrow> nat" where
  "mantissa_shift d n =
     (if n = 0 \<or> d * 2 ^ 52 \<le> n then 0 else Suc (mantissa_shift d (2 * n)))"
  by pat_completeness auto
termination
  by (relation "measure (\<lambda>(d, n). d * 2 ^ 52 - n)") auto

declare mantissa_shift.simps [simp del]

function mantissa_excess :: "nat \<Rightarrow> nat \<Rightarrow> nat" where
  "mantissa_excess d n =
     (if d = 0 \<or> n < d * 2 ^ 53 then 0 else Suc (mantissa_excess d (n div 2)))"
  by pat_completeness auto
termination
  by (relation "measure (\<lambda>(d, n). n)") auto

declare mantissa_excess.simps [simp del]

definition js_floor_div :: "int \<Rightarrow> nat \<Rightarrow> int" where
  "js_floor_div x d =
     (let n = nat \<bar>x\<bar>
      in if n < d * 2 ^ 53 then
           (let k = mantissa_shift d n in round_half_even (x * 2 ^ k) (int d) div 2 ^ k)
         else
           (let p = mantissa_excess d n in round_half_even x (int d * 2 ^ p) * 2 ^ p))"

text \<open>
  The value a string of decimal digits denotes, and the code units that are decimal digits:
  what a rendered number is measured against.
\<close>

definition decimal_value :: "ustring \<Rightarrow> nat" where
  "decimal_value ds = foldl (\<lambda>acc c. 10 * acc + (c - 48)) 0 ds"

definition is_decimal_digit :: "nat \<Rightarrow> bool" where
  "is_decimal_digit c = (48 \<le> c \<and> c \<le> 57)"


section \<open>File validation (components/FileUpload.tsx)\<close>

record File =
  name :: string
  size_bytes :: nat

definition allowedExtensions :: "string list" where
  "allowedExtensions =
     [''.txt'', ''.md'', ''.pdf'', ''.docx'', ''.doc'',
      ''.jpg'', ''.jpeg'', ''.png'', ''.gif'', ''.bmp'']"

definition maxFileSize :: nat where
  "maxFileSize = 10 * 1024 * 1024"

text \<open>The two messages of \<open>validateFile\<close>, as UTF-16 code units.\<close>

definition unsupported_type_message :: ustring where
  "unsupported_type_message =
     [51648, 50896, 54616, 51648, 32, 50506, 45716, 32, 54028, 51068, 32, 54805, 49885,
      51077, 45768, 45796, 46, 32, 54728, 50857, 46108, 32, 54869, 51109, 51088, 58, 32]
     @ ascii (join '', '' allowedExtensions)"

definition too_large_message :: ustring where
  "too_large_message =
     [54028, 51068, 32, 53356, 44592, 44032, 32, 45320, 47924, 32, 53373, 45768, 45796,
      46, 32, 52572, 45824, 32, 49, 48, 77, 66, 44620, 51648, 32, 51648, 50896, 54633,
      45768, 45796, 46]"

text \<open>
  \<open>'.' + file.name.split('.').pop()?.toLowerCase()\<close>: concatenating
  \<open>undefined\<close> would give \<open>.undefined\<close>.
\<close>

definition extension_of :: "string \<Rightarrow> string" where
  "extension_of nm =
     ''.'' @ (case map_option toLowerCase (pop (split CHR ''.'' nm)) of
                None \<Rightarrow> ''undefined''
              | Some e \<Rightarrow> e)"

text \<open>\<open>validateFile\<close>: \<open>None\<close> is \<open>null\<close> (the file is accepted).\<close>

definition validateFile :: "File \<Rightarrow> ustring option" where
  "validateFile file =
     (let extension = extension_of (name file)
      in if extension \<notin> set allowedExtensions then Some unsupported_type_message
         else if size_bytes file > maxFileSize then Some too_large_message
         else None)"

text \<open>A name ends with a suffix; a name has one of the allowed extensions as its suffix.\<close>

definition endsWith :: "string \<Rightarrow> string \<Rightarrow> bool" where
  "endsWith s e = (length e \<le> length s \<and> drop (length s - length e) s = e)"

definition has_recognized_suffix :: "string \<Rightarrow> bool" where
  "has_recognized_suffix nm = list_ex (endsWith (toLowerCase nm)) allowedExtensions"


section \<open>Durations on the deck list (app/decks/page.tsx)\<close>

definition calc_error_text :: ustring where
  "calc_error_text = [44228, 49328, 32, 50724, 47448]"

definition seconds_unit :: ustring where
  "seconds_unit = [52488]"

definition minutes_unit :: ustring where
  "minutes_unit = [48516]"

definition hours_unit :: ustring where
  "hours_unit = [49884, 44036]"

text \<open>
  The branches of \<open>formatDuration\<close> on \<open>diffSeconds\<close>. The remainder \<open>%\<close> of
  integer-valued doubles is exact, and its operands are not negative here.
\<close>

definition duration_text :: "int \<Rightarrow> ustring" where
  "duration_text diffSeconds =
     (if diffSeconds < 0 then calc_error_text
      else if diffSeconds < 60 then numToString diffSeconds @ seconds_unit
      else if diffSeconds < 3600 then
        (let minutes = js_floor_div diffSeconds 60; seconds = diffSeconds mod 60
         in if seconds > 0
            then numToString minutes @ minutes_unit @ [32] @ numToString seconds @ seconds_unit
            else numToString minutes @ minutes_unit)
      else
        (let hours = js_floor_div diffSeconds 3600;
             minutes = js_floor_div (diffSeconds mod 3600) 60
         in if minutes > 0
            then numToString hours @ hours_unit @ [32] @ numToString minutes @ minutes_unit
            else numToString hours @ hours_unit))"

text \<open>
  \<open>formatDuration(startTime, endTime?)\<close>. The \<open>Date\<close> constructor's parser is not
  part of the repository: \<open>parse\<close> gives the time value in milliseconds, \<open>None\<close> for
  an invalid date; \<open>now\<close> is the time value of \<open>new Date()\<close>. An absent or empty
  \<open>endTime\<close> is falsy. Before the branches the function logs \<open>start.toISOString()\<close>
  and \<open>end.toISOString()\<close>, which throw \<open>RangeError\<close> for an invalid date, so the
  branches see numbers only.
\<close>

datatype js_error = RangeError

definition formatDuration ::
  "(string \<Rightarrow> int option) \<Rightarrow> int \<Rightarrow> string \<Rightarrow> string option \<Rightarrow> js_error + ustring" where
  "formatDuration parse now startTime endTime =
     (let start = parse startTime;
          end = (case endTime of
                   None \<Rightarrow> Some now
                 | Some e \<Rightarrow> if e = [] then Some now else parse e)
      in case (start, end) of
           (Some s, Some e) \<Rightarrow>
             (let diffMs = to_double (e - s); diffSeconds = js_floor_div diffMs 1000
              in Inr (duration_text diffSeconds))
         | _ \<Rightarrow> Inl RangeError)"

text \<open>
  The largest magnitude of the time value of a valid date (ECMAScript's time range).
\<close>

definition max_time_value :: int where
  "max_time_value = 8640000000000000"


section \<open>Wire types of the preview (preview/types.ts)\<close>

record SlideVersion =
  version_id :: string
  content :: string
  timestamp :: string
  is_current :: bool
  created_by :: string

record Slide =
  order :: nat
  slide_title :: string
  html_content :: string
  current_version_id :: "string option"
  versions :: "SlideVersion list"

text \<open>
  \<open>DeckData\<close>; the fields \<open>id\<close>, \<open>status\<close>, \<open>progress\<close>, \<open>step\<close>,
  \<open>created_at\<close> and \<open>updated_at\<close> carry the prefix \<open>data_\<close>.
\<close>

record DeckData =
  data_id :: string
  deck_title :: string
  data_status :: string
  slides :: "Slide list"
  data_progress :: nat
  data_step :: string
  data_created_at :: string
  data_updated_at :: "string option"

text \<open>\<open>DeckStatus\<close>, the status snapshot; an optional field is an \<open>option\<close>.\<close>

record DeckStatus =
  deck_id :: string
  status :: string
  slide_count :: nat
  progress :: "nat option"
  step :: "string option"
  created_at :: string
  updated_at :: "string option"
  completed_at :: "string option"

text \<open>
  \<open>Deck\<close>, the row of the deck list (app/decks/page.tsx): the fields of the status
  snapshot and a title.
\<close>

record Deck = DeckStatus +
  title :: string


section \<open>The status unions the interfaces declare\<close>

text \<open>
  A union of string literals is the list of the values it admits. In order: the
  \<open>status\<close> field of \<open>DeckStatus\<close> in preview/types.ts, of \<open>Deck\<close> in
  app/decks/page.tsx, and of the \<open>DeckStatus\<close> that preview/page.tsx declares locally.
\<close>

definition DeckStatus_status_values :: "string list" where
  "DeckStatus_status_values =
     [''starting'', ''planning'', ''writing'', ''rendering'', ''modifying'',
      ''completed'', ''failed'', ''cancelled'']"

definition Deck_status_values :: "string list" where
  "Deck_status_values = [''generating'', ''completed'', ''failed'', ''cancelled'']"

definition page_DeckStatus_status_values :: "string list" where
  "page_DeckStatus_status_values =
     [''completed'', ''modifying'', ''generating'', ''failed'', ''cancelled'']"

definition declared_status_unions :: "string list list" where
  "declared_status_unions =
     [DeckStatus_status_values, Deck_status_values, page_DeckStatus_status_values]"

text \<open>The eight values of the wire-visible status enum, as the specification lists them.\<close>

definition wire_status_enum :: "string list" where
  "wire_status_enum =
     [''starting'', ''planning'', ''writing'', ''rendering'', ''modifying'',
      ''completed'', ''failed'', ''cancelled'']"


section \<open>The deck preview (preview/page.tsx and its hook)\<close>

text \<open>
  The requests the preview sends, all for the deck of the page; the slide-scoped ones
  carry the slide order that is written into the URL.
\<close>

datatype request =
    GetStatus
  | GetData
  | Modify nat string
  | GetVersions nat
  | RevertVersion nat string
  | SaveSlide nat string

fun request_slide_order :: "request \<Rightarrow> nat option" where
  "request_slide_order GetStatus = None"
| "request_slide_order GetData = None"
| "request_slide_order (Modify n p) = Some n"
| "request_slide_order (GetVersions n) = Some n"
| "request_slide_order (RevertVersion n v) = Some n"
| "request_slide_order (SaveSlide n h) = Some n"

text \<open>How a \<open>fetch\<close> ends: \<open>response.ok\<close>, a response that is not ok, or a throw.\<close>

datatype outcome = Ok | NotOk | NetworkFailure

text \<open>The React state of \<open>DeckPreview\<close>; \<open>redirected\<close> records \<open>router.push\<close>.\<close>

record preview =
  deckData :: "DeckData option"
  currentSlide :: nat
  isLoading :: bool
  error :: "ustring option"
  modificationPrompt :: string
  isModifying :: bool
  modifyingSlides :: "nat set"
  isSaving :: bool
  showVersionHistory :: bool
  slideVersions :: "SlideVersion list"
  loadingVersions :: bool
  redirected :: bool

definition initial_preview :: preview where
  "initial_preview =
     \<lparr>deckData = None, currentSlide = 0, isLoading = True, error = None,
      modificationPrompt = [], isModifying = False, modifyingSlides = {},
      isSaving = False, showVersionHistory = False, slideVersions = [],
      loadingVersions = False, redirected = False\<rparr>"

text \<open>
  A handler is a function from the state in which it is called to the state after its
  synchronous part and the requests it sends. What it does when a response arrives is a
  function of its own, which takes what the closure captured.
\<close>

definition fetchSlideVersions :: "nat \<Rightarrow> preview \<Rightarrow> preview \<times> request list" where
  "fetchSlideVersions slideOrder s = (s\<lparr>loadingVersions := True\<rparr>, [GetVersions slideOrder])"

definition fetchSlideVersions_response :: "SlideVersion list option \<Rightarrow> preview \<Rightarrow> preview" where
  "fetchSlideVersions_response r s =
     s\<lparr>slideVersions := (case r of Some vs \<Rightarrow> vs | None \<Rightarrow> []), loadingVersions := False\<rparr>"

definition nextSlide :: "preview \<Rightarrow> preview \<times> request list" where
  "nextSlide s =
     (case deckData s of
        None \<Rightarrow> (s, [])
      | Some d \<Rightarrow>
          if int (currentSlide s) < int (length (slides d)) - 1 then
            (let newSlide = currentSlide s + 1; s' = s\<lparr>currentSlide := newSlide\<rparr>
             in if showVersionHistory s then fetchSlideVersions (newSlide + 1) s' else (s', []))
          else (s, []))"

definition prevSlide :: "preview \<Rightarrow> preview \<times> request list" where
  "prevSlide s =
     (if currentSlide s > 0 then
        (let newSlide = currentSlide s - 1; s' = s\<lparr>currentSlide := newSlide\<rparr>
         in if showVersionHistory s then fetchSlideVersions (newSlide + 1) s' else (s', []))
      else (s, []))"

text \<open>The click on an entry of the slide list.\<close>

definition selectSlide :: "nat \<Rightarrow> preview \<Rightarrow> preview \<times> request list" where
  "selectSlide index s =
     (let s' = s\<lparr>currentSlide := index\<rparr>
      in if showVersionHistory s then fetchSlideVersions (index + 1) s' else (s', []))"

text \<open>The click on the version-history button of the header.\<close>

definition toggleVersionHistory :: "preview \<Rightarrow> preview \<times> request list" where
  "toggleVersionHistory s =
     (let s' = s\<lparr>showVersionHistory := \<not> showVersionHistory s\<rparr>
      in if \<not> showVersionHistory s then fetchSlideVersions (currentSlide s + 1) s' else (s', []))"

definition handleModifySlide :: "preview \<Rightarrow> preview \<times> request list" where
  "handleModifySlide s =
     (if trim (modificationPrompt s) = [] then (s, [])
      else
        (let slideNumber = currentSlide s + 1
         in (s\<lparr>isModifying := True\<rparr>, [Modify slideNumber (trim (modificationPrompt s))])))"

text \<open>The rest of \<open>handleModifySlide\<close>, with the \<open>slideNumber\<close> it captured.\<close>

definition handleModifySlide_response :: "nat \<Rightarrow> outcome \<Rightarrow> preview \<Rightarrow> preview" where
  "handleModifySlide_response slideNumber r s =
     (case r of
        Ok \<Rightarrow> s\<lparr>modifyingSlides := insert slideNumber (modifyingSlides s),
                 modificationPrompt := [], isModifying := False\<rparr>
      | _ \<Rightarrow> s\<lparr>isModifying := False\<rparr>)"

definition revertToVersion :: "string \<Rightarrow> preview \<Rightarrow> preview \<times> request list" where
  "revertToVersion versionId s = (s, [RevertVersion (currentSlide s + 1) versionId])"

text \<open>
  The rest of \<open>revertToVersion\<close>: when the response is ok it refreshes the deck
  (\<open>fetchDeckData\<close> asks for the status, then for the data) and then the version
  history of the \<open>currentSlide\<close> it captured.
\<close>

definition revertToVersion_response :: "nat \<Rightarrow> outcome \<Rightarrow> request list" where
  "revertToVersion_response capturedSlide r =
     (case r of Ok \<Rightarrow> [GetStatus, GetData, GetVersions (capturedSlide + 1)] | _ \<Rightarrow> [])"

text \<open>
  \<open>handleSaveSlide\<close>; \<open>iframe\<close> is the document read from the frame, \<open>None\<close> when
  the frame cannot be read (the handler throws before it sends anything).
\<close>

definition handleSaveSlide :: "string option \<Rightarrow> preview \<Rightarrow> preview \<times> request list" where
  "handleSaveSlide iframe s =
     (case iframe of
        None \<Rightarrow> (s\<lparr>isSaving := False\<rparr>, [])
      | Some outerHTML \<Rightarrow>
          (s\<lparr>isSaving := True\<rparr>,
           [SaveSlide (currentSlide s + 1) (''<!DOCTYPE html>'' @ [CHR 0x0A] @ outerHTML)]))"

definition handleSaveSlide_response ::
  "nat \<Rightarrow> bool \<Rightarrow> outcome \<Rightarrow> preview \<Rightarrow> preview \<times> request list" where
  "handleSaveSlide_response capturedSlide capturedShow r s =
     (case r of
        Ok \<Rightarrow> (if capturedShow
               then (let (s', rs) = fetchSlideVersions (capturedSlide + 1) s
                     in (s'\<lparr>isSaving := False\<rparr>, rs))
               else (s\<lparr>isSaving := False\<rparr>, []))
      | _ \<Rightarrow> (s\<lparr>isSaving := False\<rparr>, []))"

text \<open>How the request for the deck data ends.\<close>

datatype data_response = DataOk DeckData | DataNotFound | DataFailed | DataNetworkFailure

definition not_found_text :: ustring where
  "not_found_text = [45937, 51012, 32, 52286, 51012, 32, 49688, 32, 50630, 49845, 45768, 45796, 46]"

definition load_failed_text :: ustring where
  "load_failed_text =
     [45937, 32, 45936, 51060, 53552, 47484, 32, 48520, 47084, 50724, 45716, 45936, 32,
      49892, 54056, 54664, 49845, 45768, 45796, 46]"

definition network_error_text :: ustring where
  "network_error_text =
     [45348, 53944, 50892, 53356, 32, 50724, 47448, 44032, 32, 48156, 49373, 54664,
      49845, 45768, 45796, 46]"

text \<open>
  What \<open>fetchDeckData\<close> does with its two responses: \<open>st\<close> is the status it read
  (\<open>None\<close> when \<open>fetchDeckStatus\<close> returned \<open>null\<close>) and \<open>capturedNonEmpty\<close> is
  \<open>modifyingSlides.size > 0\<close> as its closure sees it.
\<close>

definition fetchDeckData_response ::
  "bool \<Rightarrow> string option \<Rightarrow> data_response \<Rightarrow> preview \<Rightarrow> preview" where
  "fetchDeckData_response capturedNonEmpty st r s =
     (case r of
        DataOk d \<Rightarrow>
          (let s1 = s\<lparr>deckData := Some d\<rparr>;
               s2 = (if st = Some ''completed'' \<and> capturedNonEmpty
                     then s1\<lparr>modifyingSlides := {}\<rparr> else s1)
           in if data_status d \<noteq> ''completed'' \<and> data_status d \<noteq> ''modifying''
              then s2\<lparr>redirected := True\<rparr>
              else s2\<lparr>isLoading := False\<rparr>)
      | DataNotFound \<Rightarrow> s\<lparr>error := Some not_found_text, isLoading := False\<rparr>
      | DataFailed \<Rightarrow> s\<lparr>error := Some load_failed_text, isLoading := False\<rparr>
      | DataNetworkFailure \<Rightarrow> s\<lparr>error := Some network_error_text, isLoading := False\<rparr>)"

text \<open>
  One tick of the polling interval, which runs while \<open>modifyingSlides\<close> is not empty:
  \<open>st\<close> is the status the tick read; when it is not \<open>modifying\<close> the deck is
  fetched again (\<open>st'\<close> and \<open>r\<close> are what that fetch got) and the set is emptied.
\<close>

definition pollTick ::
  "string option \<Rightarrow> bool \<Rightarrow> string option \<Rightarrow> data_response \<Rightarrow> preview \<Rightarrow> preview" where
  "pollTick st capturedNonEmpty st' r s =
     (case st of
        None \<Rightarrow> s
      | Some v \<Rightarrow>
          if v = ''completed'' \<or> v \<noteq> ''modifying''
          then (fetchDeckData_response capturedNonEmpty st' r s)\<lparr>modifyingSlides := {}\<rparr>
          else s)"

text \<open>What the page renders and enables.\<close>

definition displayed_slide_number :: "preview \<Rightarrow> nat" where
  "displayed_slide_number s = currentSlide s + 1"

definition prev_disabled :: "preview \<Rightarrow> bool" where
  "prev_disabled s = (currentSlide s = 0)"

definition next_disabled :: "DeckData \<Rightarrow> preview \<Rightarrow> bool" where
  "next_disabled d s = (int (currentSlide s) = int (length (slides d)) - 1)"

definition prompt_disabled :: "preview \<Rightarrow> bool" where
  "prompt_disabled s = (currentSlide s + 1 \<in> modifyingSlides s)"

definition modify_disabled :: "preview \<Rightarrow> bool" where
  "modify_disabled s =
     (currentSlide s + 1 \<in> modifyingSlides s \<or> trim (modificationPrompt s) = [])"

text \<open>Enter without Shift in the prompt submits under this condition.\<close>

definition enter_submits :: "preview \<Rightarrow> bool" where
  "enter_submits s =
     (trim (modificationPrompt s) \<noteq> [] \<and> currentSlide s + 1 \<notin> modifyingSlides s)"

text \<open>The version history shows the revert button of a version under this condition.\<close>

definition revert_offered :: "SlideVersion \<Rightarrow> bool" where
  "revert_offered version = (\<not> is_current version)"

text \<open>The revert button of the version with this id is on the page.\<close>

definition revert_button_shown :: "string \<Rightarrow> preview \<Rightarrow> bool" where
  "revert_button_shown versionId s =
     (showVersionHistory s \<and> \<not> loadingVersions s \<and>
      list_ex (\<lambda>version. version_id version = versionId \<and> revert_offered version)
        (slideVersions s))"

text \<open>
  What the user and the network can do to the preview. A control that is disabled or
  not on the page does nothing; the prompt cannot be edited or submitted while it is
  disabled. A response may arrive in any state.
\<close>

datatype event =
    ClickNext
  | ClickPrev
  | ClickSlide nat
  | ClickVersionHistory
  | TypePrompt string
  | ClickModify
  | PressEnter
  | ModifyResponse nat outcome
  | ClickRevert string
  | ClickSave "string option"
  | SaveResponse nat bool outcome
  | VersionsResponse "SlideVersion list option"
  | DeckDataResponse bool "string option" data_response
  | PollTick "string option" bool "string option" data_response

fun preview_step :: "event \<Rightarrow> preview \<Rightarrow> preview" where
  "preview_step ClickNext s =
     (case deckData s of
        None \<Rightarrow> s
      | Some d \<Rightarrow> if next_disabled d s then s else fst (nextSlide s))"
| "preview_step ClickPrev s = (if prev_disabled s then s else fst (prevSlide s))"
| "preview_step (ClickSlide i) s =
     (case deckData s of
        None \<Rightarrow> s
      | Some d \<Rightarrow> if i < length (slides d) then fst (selectSlide i s) else s)"
| "preview_step ClickVersionHistory s = fst (toggleVersionHistory s)"
| "preview_step (TypePrompt p) s =
     (if prompt_disabled s then s else s\<lparr>modificationPrompt := p\<rparr>)"
| "preview_step ClickModify s = (if modify_disabled s then s else fst (handleModifySlide s))"
| "preview_step PressEnter s =
     (if \<not> prompt_disabled s \<and> enter_submits s then fst (handleModifySlide s) else s)"
| "preview_step (ModifyResponse n r) s = handleModifySlide_response n r s"
| "preview_step (ClickRevert v) s =
     (if revert_button_shown v s then fst (revertToVersion v s) else s)"
| "preview_step (ClickSave f) s = (if isSaving s then s else fst (handleSaveSlide f s))"
| "preview_step (SaveResponse n b r) s = fst (handleSaveSlide_response n b r s)"
| "preview_step (VersionsResponse r) s = fetchSlideVersions_response r s"
| "preview_step (DeckDataResponse c st r) s = fetchDeckData_response c st r s"
| "preview_step (PollTick st c st' r) s = pollTick st c st' r s"

fun preview_run :: "event list \<Rightarrow> preview \<Rightarrow> preview" where
  "preview_run [] s = s"
| "preview_run (e # es) s = preview_run es (preview_step e s)"


text \<open>Calls of \<open>nextSlide\<close> and \<open>prevSlide\<close>, one after the other.\<close>

datatype nav = Next | Prev

fun nav_step :: "nav \<Rightarrow> preview \<Rightarrow> preview" where
  "nav_step Next s = fst (nextSlide s)"
| "nav_step Prev s = fst (prevSlide s)"

fun nav_run :: "nav list \<Rightarrow> preview \<Rightarrow> preview" where
  "nav_run [] s = s"
| "nav_run (c # cs) s = nav_run cs (nav_step c s)"

text \<open>Every slide-scoped request of the list is for slide order \<open>n\<close>.\<close>

definition addresses_only :: "nat \<Rightarrow> request list \<Rightarrow> bool" where
  "addresses_only n rs =
     list_all (\<lambda>r. case request_slide_order r of None \<Rightarrow> True | Some k \<Rightarrow> k = n) rs"

text \<open>
  The deck has \<open>n\<close> slides and the index of the slide shown is one of them; a deck that
  a response delivers has \<open>n\<close> slides.
\<close>

definition index_in_bounds :: "nat \<Rightarrow> preview \<Rightarrow> bool" where
  "index_in_bounds n s =
     (case deckData s of
        None \<Rightarrow> False
      | Some d \<Rightarrow> length (slides d) = n \<and> currentSlide s < n)"

fun delivers_slide_count :: "nat \<Rightarrow> event \<Rightarrow> bool" where
  "delivers_slide_count n (DeckDataResponse c st (DataOk d)) = (length (slides d) = n)"
| "delivers_slide_count n (PollTick st c st' (DataOk d)) = (length (slides d) = n)"
| "delivers_slide_count n e = True"


section \<open>Creating a deck (app/page.tsx and the request model)\<close>

text \<open>
  The submit handler of the home page: \<open>if (!prompt.trim()) return;\<close>, otherwise one
  request whose body holds the prompt as typed.
\<close>

datatype create_request = CreateDeck string

definition handleSubmit :: "string \<Rightarrow> create_request list" where
  "handleSubmit prompt = (if trim prompt = [] then [] else [CreateDeck prompt])"

text \<open>
  Python's \<open>str.strip()\<close>: the characters for which \<open>str.isspace\<close> holds among
  the code points 0..255 are 9..13, 28..32, 133 and 160.
\<close>

definition py_whitespace :: "char \<Rightarrow> bool" where
  "py_whitespace c =
     ((of_char c :: nat) \<in> set [9, 10, 11, 12, 13, 28, 29, 30, 31, 32, 133, 160])"

definition strip :: "string \<Rightarrow> string" where
  "strip s = rev (dropWhile py_whitespace (rev (dropWhile py_whitespace s)))"

datatype api_error = ValidationError | NotFoundError | ConflictError | ExternalServiceError

text \<open>\<open>FileInfo\<close> (components/FileUpload.tsx), an uploaded file as the client sends it.\<close>

record FileInfo =
  filename :: string
  content_type :: string
  file_size :: nat
  extracted_text :: string

text \<open>
  \<open>CreateDeckRequest\<close> (ARCHITECTURE\_IMPROVEMENTS.md): the three fields of the request
  model. \<open>style\<close> and \<open>files\<close> are optional and carry no constraint beyond their type.
\<close>

record create_deck_fields =
  prompt :: string
  style :: "(string \<rightharpoonup> string) option"
  files :: "FileInfo list option"

text \<open>
  Validation of a request: the constraints of \<open>Field(..., min_length=5, max_length=5000)\<close>
  are checked on the prompt received, then the validator \<open>validate_prompt\<close> runs on it,
  rejects a value whose \<open>strip()\<close> is empty and returns the stripped value, which the
  model stores. A failure of either raises the validation error.
\<close>

definition validate_prompt :: "string \<Rightarrow> api_error + string" where
  "validate_prompt v = (if strip v = [] then Inl ValidationError else Inr (strip v))"

definition CreateDeckRequest :: "create_deck_fields \<Rightarrow> api_error + create_deck_fields" where
  "CreateDeckRequest received =
     (if length (prompt received) < 5 then Inl ValidationError
      else if length (prompt received) > 5000 then Inl ValidationError
      else (case validate_prompt (prompt received) of
              Inl e \<Rightarrow> Inl e
            | Inr v \<Rightarrow> Inr (received\<lparr>prompt := v\<rparr>)))"


section \<open>The deck list (app/decks/page.tsx)\<close>

text \<open>
  \<open>fetchDecks\<close>, for one row: a row whose status is \<open>generating\<close> or
  \<open>modifying\<close> takes progress, step, status and slide count from the status snapshot
  when that request succeeds (\<open>statusData\<close> is \<open>None\<close> when it does not).
\<close>

definition enrich :: "Deck \<Rightarrow> DeckStatus option \<Rightarrow> Deck" where
  "enrich deck statusData =
     (if status deck = ''generating'' \<or> status deck = ''modifying'' then
        (case statusData of
           Some sd \<Rightarrow>
             deck\<lparr>progress := progress sd, step := step sd, status := status sd,
                  slide_count := slide_count sd\<rparr>
         | None \<Rightarrow> deck)
      else deck)"


section \<open>The orchestrator, as the specification describes it\<close>

text \<open>
  The server is not among the sources. The definitions of this section follow the
  specification's words; each says what it stands for.
\<close>

subsection \<open>Version store\<close>

text \<open>
  Modelled from the spec: the version store of one slide (the store's code is missing) is the
  \<open>Slide\<close> record above, its \<open>versions\<close> listed newest first as \<open>ListVersions\<close>
  returns them. A slide before its first render has no version.
\<close>

definition new_slide :: "nat \<Rightarrow> string \<Rightarrow> Slide" where
  "new_slide n t =
     \<lparr>order = n, slide_title = t, html_content = [], current_version_id = None, versions = []\<rparr>"

text \<open>The identifiers of a slide's versions, newest first.\<close>

definition version_ids :: "Slide \<Rightarrow> string list" where
  "version_ids s = map version_id (versions s)"

text \<open>
  Modelled from the spec: \<open>SaveVersion\<close> (the store's code is missing), append-only. The new
  entry becomes the current one, the entry that was current stops being so, and the slide
  serves the new content. \<open>vid\<close> is the identifier the store allocates for the entry.
\<close>

definition SaveVersion :: "string \<Rightarrow> string \<Rightarrow> string \<Rightarrow> string \<Rightarrow> Slide \<Rightarrow> Slide" where
  "SaveVersion vid c ts origin s =
     s\<lparr>versions :=
          \<lparr>version_id = vid, content = c, timestamp = ts, is_current = True, created_by = origin\<rparr>
          # map (\<lambda>v. v\<lparr>is_current := False\<rparr>) (versions s),
        html_content := c,
        current_version_id := Some vid\<rparr>"

text \<open>
  Modelled from the spec: what a revert to the version \<open>vid\<close> does to one entry of the
  history (the store's code is missing): the target's \<open>is_current\<close> becomes true, that of
  the entry that was current becomes false, and nothing else changes.
\<close>

definition reflag :: "string \<Rightarrow> SlideVersion \<Rightarrow> SlideVersion" where
  "reflag vid v =
     (if version_id v = vid then v\<lparr>is_current := True\<rparr>
      else if is_current v then v\<lparr>is_current := False\<rparr>
      else v)"

text \<open>
  Modelled from the spec: \<open>Revert\<close> (the store's code is missing), under the policy the
  specification fixes: an unknown version id is \<open>NotFoundError\<close>; otherwise the flags move
  as above, no entry is added and no content is touched, and the slide serves the target's
  content.
\<close>

definition Revert :: "string \<Rightarrow> Slide \<Rightarrow> api_error + Slide" where
  "Revert vid s =
     (case find (\<lambda>v. version_id v = vid) (versions s) of
        None \<Rightarrow> Inl NotFoundError
      | Some target \<Rightarrow>
          Inr (s\<lparr>versions := map (reflag vid) (versions s),
                 html_content := content target,
                 current_version_id := Some vid\<rparr>))"

text \<open>
  Modelled from the spec: the four operations that touch the version store (the orchestrator's
  code is missing), with the origin tag each records: the initial render of a slide task, an
  AI modification, a manual save, and a revert.
\<close>

datatype store_op =
    InitialRender string string string
  | AIModification string string string
  | ManualSave string string string
  | RevertTo string

fun apply_store_op :: "store_op \<Rightarrow> Slide \<Rightarrow> api_error + Slide" where
  "apply_store_op (InitialRender vid c ts) s = Inr (SaveVersion vid c ts ''system'' s)"
| "apply_store_op (AIModification vid c ts) s = Inr (SaveVersion vid c ts ''AI-modification'' s)"
| "apply_store_op (ManualSave vid c ts) s = Inr (SaveVersion vid c ts ''manual-save'' s)"
| "apply_store_op (RevertTo vid) s = Revert vid s"

text \<open>
  Modelled from the spec: version identifiers are unique (the store's allocator is missing), so
  the identifier of a new entry is none of the slide's identifiers.
\<close>

fun allocates_fresh_id :: "store_op \<Rightarrow> Slide \<Rightarrow> bool" where
  "allocates_fresh_id (InitialRender vid c ts) s = (vid \<notin> set (version_ids s))"
| "allocates_fresh_id (AIModification vid c ts) s = (vid \<notin> set (version_ids s))"
| "allocates_fresh_id (ManualSave vid c ts) s = (vid \<notin> set (version_ids s))"
| "allocates_fresh_id (RevertTo vid) s = True"

text \<open>
  Modelled from the spec: the histories a slide can have (the orchestrator's code is missing):
  it starts without a version, and each operation that succeeds leads to the next history.
  An operation that fails leaves the store as it was.
\<close>

inductive reachable_slide :: "Slide \<Rightarrow> bool" where
  fresh: "reachable_slide (new_slide n t)"
| step: "reachable_slide s \<Longrightarrow> allocates_fresh_id op s \<Longrightarrow> apply_store_op op s = Inr s'
         \<Longrightarrow> reachable_slide s'"

code_pred reachable_slide .

text \<open>
  The version invariant: once there is a version, exactly one is current; the slide serves
  its content under its identifier; identifiers are unique.
\<close>

definition current_versions :: "Slide \<Rightarrow> SlideVersion list" where
  "current_versions s = filter is_current (versions s)"

definition version_invariant :: "Slide \<Rightarrow> bool" where
  "version_invariant s =
     (distinct (version_ids s) \<and>
      (if versions s = [] then current_version_id s = None
       else length (current_versions s) = 1 \<and>
            current_version_id s = Some (version_id (hd (current_versions s))) \<and>
            html_content s = content (hd (current_versions s))))"

text \<open>What is fixed when a version is created: everything but the current flag.\<close>

definition frozen_part :: "SlideVersion \<Rightarrow> string \<times> string \<times> string \<times> string" where
  "frozen_part v = (version_id v, content v, timestamp v, created_by v)"

text \<open>The history \<open>new\<close> keeps every entry of \<open>old\<close>, unchanged, below what it added.\<close>

definition extends_history :: "SlideVersion list \<Rightarrow> SlideVersion list \<Rightarrow> bool" where
  "extends_history old new =
     (length old \<le> length new \<and>
      map frozen_part old = drop (length new - length old) (map frozen_part new))"

subsection \<open>One pipeline task per slide\<close>









subsection \<open>Progress of a deck job\<close>

text \<open>
  Modelled from the spec: the deck job of one generation pass (its code is missing).
  \<open>stages_done\<close> holds, for each slide task, how many of its three stages (plan, write,
  render) are complete.
\<close>

record deck_job =
  job_status :: string
  stages_done :: "nat list"

text \<open>
  Modelled from the spec: a deck job at admission (its code is missing), with \<open>n\<close> slide
  tasks that have completed no stage.
\<close>

definition new_job :: "nat \<Rightarrow> deck_job" where
  "new_job n = \<lparr>job_status = ''starting'', stages_done = replicate n 0\<rparr>"

text \<open>
  Modelled from the spec: \<open>progress = completed-stage-count / (slide_count * 3) * 100\<close>,
  rounded to the nearest integer (half up); a job without slides has made no progress.
\<close>

definition job_progress :: "deck_job \<Rightarrow> nat" where
  "job_progress j =
     (let n = length (stages_done j); c = sum_list (stages_done j)
      in if n = 0 then 0 else (2 * (c * 100) + n * 3) div (2 * (n * 3)))"

text \<open>
  Modelled from the spec: the statuses that are terminal for a generation pass (the deck job's
  code is missing).
\<close>

definition terminal :: "string \<Rightarrow> bool" where
  "terminal st = (st = ''completed'' \<or> st = ''failed'' \<or> st = ''cancelled'')"

text \<open>
  Modelled from the spec: what happens to a deck job during its generation pass (the deck job's
  code is missing): a slide task completes its next stage, the job moves to another status
  (the phases in order, or \<open>failed\<close>/\<open>cancelled\<close>). A terminal job changes no more, and
  a slide task has three stages.
\<close>

datatype job_event = StageComplete nat | MoveTo string

fun job_step :: "job_event \<Rightarrow> deck_job \<Rightarrow> deck_job" where
  "job_step (StageComplete i) j =
     (if terminal (job_status j) \<or> i \<ge> length (stages_done j) \<or> stages_done j ! i \<ge> 3 then j
      else j\<lparr>stages_done := (stages_done j)[i := stages_done j ! i + 1]\<rparr>)"
| "job_step (MoveTo st) j = (if terminal (job_status j) then j else j\<lparr>job_status := st\<rparr>)"

text \<open>
  Modelled from the spec: \<open>GetStatus\<close> (the orchestrator's code is missing), the snapshot
  derived from the deck job.
\<close>

definition job_snapshot :: "string \<Rightarrow> string \<Rightarrow> deck_job \<Rightarrow> DeckStatus" where
  "job_snapshot did created j =
     \<lparr>deck_id = did, status = job_status j, slide_count = length (stages_done j),
      progress = Some (job_progress j), step = Some (job_status j), created_at = created,
      updated_at = None, completed_at = None\<rparr>"

text \<open>
  The progress values that successive status reads see: one read of the job as it is,
  then one after each event.
\<close>

fun progress_reads :: "job_event list \<Rightarrow> deck_job \<Rightarrow> nat list" where
  "progress_reads [] j = [job_progress j]"
| "progress_reads (e # es) j = job_progress j # progress_reads es (job_step e j)"


section \<open>Example values\<close>

definition three_slides :: DeckData where
  "three_slides =
     \<lparr>data_id = ''d1'', deck_title = ''Roadmap'', data_status = ''completed'',
      slides = [new_slide 1 ''a'', new_slide 2 ''b'', new_slide 3 ''c''],
      data_progress = 100, data_step = ''done'', data_created_at = ''t'',
      data_updated_at = None\<rparr>"

definition third_slide_shown :: preview where
  "third_slide_shown =
     initial_preview\<lparr>deckData := Some three_slides, currentSlide := 2, isLoading := False,
       modificationPrompt := '' make it bolder ''\<rparr>"

definition slide_two_versions :: Slide where
  "slide_two_versions =
     SaveVersion ''v2'' ''<h1>B</h1>'' ''t2'' ''AI-modification''
       (SaveVersion ''v1'' ''<h1>A</h1>'' ''t1'' ''system'' (new_slide 3 ''Pricing''))"

definition slide_reverted :: Slide where
  "slide_reverted =
     \<lparr>order = 3, slide_title = ''Pricing'', html_content = ''<h1>A</h1>'',
      current_version_id = Some ''v1'',
      versions =
        [\<lparr>version_id = ''v2'', content = ''<h1>B</h1>'', timestamp = ''t2'',
          is_current = False, created_by = ''AI-modification''\<rparr>,
         \<lparr>version_id = ''v1'', content = ''<h1>A</h1>'', timestamp = ''t1'',
          is_current = True, created_by = ''system''\<rparr>]\<rparr>"

definition job_events :: "job_event list" where
  "job_events =
     [MoveTo ''planning'', StageComplete 0, StageComplete 1, StageComplete 0,
      MoveTo ''cancelled'', StageComplete 1]"

definition modifying_third_slide :: preview where
  "modifying_third_slide = handleModifySlide_response 3 Ok third_slide_shown"



definition sample_parse :: "string \<Rightarrow> int option" where
  "sample_parse t =
     (if t = ''2025-09-11T00:00:00.000Z'' then Some 1757548800000
      else if t = ''2025-09-11T12:34:56.999Z'' then Some 1757594096999
      else if t = ''2025-09-11T00:00:59.000Z'' then Some 1757548859000
      else None)"


section \<open>Properties of file validation\<close>

lemma split_not_Nil: "split sep s \<noteq> []"
  by (induction s) (auto split: list.splits)

text \<open>
  Claim C8. \<open>validateFile\<close> is to accept a file exactly when its name ends in one of
  the allowed extensions and it is at most 10 MiB large, and to reject every name without
  a recognized suffix. The file named \<open>pdf\<close> has no dot and ends with none of the allowed
  extensions, and \<open>validateFile\<close> accepts it: the last segment of \<open>split\<close> is the
  whole name.
\<close>

theorem validateFile_accepts_dotless_name:
  "validateFile \<lparr>name = ''pdf'', size_bytes = 0\<rparr> = None \<and> \<not> has_recognized_suffix ''pdf''"
  by (simp add: validateFile_def extension_of_def pop_def toLowerCase_def toLowerCase_char_def
      allowedExtensions_def maxFileSize_def has_recognized_suffix_def endsWith_def Let_def)

lemma split_no_separator: "sep \<notin> set s \<Longrightarrow> split sep s = [s]"
  by (induction s) auto

lemma length_split: "length (split sep s) = Suc (length (filter (\<lambda>c. c = sep) s))"
  by (induction s) (auto split: list.splits)

lemma last_split_after_separator:
  assumes "sep \<notin> set b"
  shows "last (split sep (a @ sep # b)) = b"
proof (induction a)
  case Nil
  from assms show ?case by (simp add: split_no_separator)
next
  case (Cons x a)
  have "length (split sep (a @ sep # b)) \<ge> 2" by (simp add: length_split)
  then obtain y z zs where s: "split sep (a @ sep # b) = y # z # zs"
    by (cases "split sep (a @ sep # b)" rule: list.exhaust; cases "tl (split sep (a @ sep # b))") auto
  with Cons show ?case by simp
qed

lemma extension_of_after_last_dot:
  "CHR ''.'' \<notin> set b \<Longrightarrow> extension_of (a @ ''.'' @ b) = ''.'' @ toLowerCase b"
  using last_split_after_separator [of "CHR ''.''" b a]
  by (simp add: extension_of_def pop_def split_not_Nil)

lemma extension_of_dotless:
  "CHR ''.'' \<notin> set nm \<Longrightarrow> extension_of nm = ''.'' @ toLowerCase nm"
  by (simp add: extension_of_def pop_def split_no_separator)

text \<open>
  What \<open>validateFile\<close> decides on: it accepts exactly when the computed extension is
  allowed and the size is at most \<open>maxFileSize\<close>; a wrong extension is reported before a
  wrong size. The computed extension is a dot and the lowercased text after the last dot of
  the name, and for a name without a dot a dot and the whole lowercased name.
\<close>

theorem validateFile_accepts_iff:
  "(validateFile file = None \<longleftrightarrow>
      extension_of (name file) \<in> set allowedExtensions \<and> size_bytes file \<le> maxFileSize) \<and>
   (extension_of (name file) \<notin> set allowedExtensions \<longrightarrow>
      validateFile file = Some unsupported_type_message) \<and>
   (extension_of (name file) \<in> set allowedExtensions \<and> size_bytes file > maxFileSize \<longrightarrow>
      validateFile file = Some too_large_message) \<and>
   (CHR ''.'' \<notin> set b \<longrightarrow> extension_of (a @ ''.'' @ b) = ''.'' @ toLowerCase b) \<and>
   (CHR ''.'' \<notin> set b \<longrightarrow> extension_of b = ''.'' @ toLowerCase b)"
  using extension_of_after_last_dot [of b a] extension_of_dotless [of b]
  by (auto simp: validateFile_def Let_def)

lemma toLowerCase_PDF: "toLowerCase ''PDF'' = ''pdf''"
  by code_simp

lemma toLowerCase_exe: "toLowerCase ''exe'' = ''exe''"
  by code_simp

theorem validateFile_accepts_iff_witness:
  "extension_of ''Q3.Report.PDF'' = ''.pdf'' \<and>
   validateFile \<lparr>name = ''Q3.Report.PDF'', size_bytes = 10485760\<rparr> = None \<and>
   validateFile \<lparr>name = ''Q3.Report.PDF'', size_bytes = 10485761\<rparr> = Some too_large_message \<and>
   validateFile \<lparr>name = ''setup.exe'', size_bytes = 10485761\<rparr> = Some unsupported_type_message"
proof -
  have e: "extension_of (''Q3.Report'' @ ''.'' @ ''PDF'') = ''.pdf''"
    using validateFile_accepts_iff [of _ "''PDF''" "''Q3.Report''"]
    by (simp add: toLowerCase_PDF)
  have x: "extension_of (''setup'' @ ''.'' @ ''exe'') = ''.exe''"
    using validateFile_accepts_iff [of _ "''exe''" "''setup''"]
    by (simp add: toLowerCase_exe)
  have a: "''.pdf'' \<in> set allowedExtensions" "''.exe'' \<notin> set allowedExtensions"
    by (simp_all add: allowedExtensions_def)
  from e a validateFile_accepts_iff [of "\<lparr>name = ''Q3.Report.PDF'', size_bytes = 10485760\<rparr>"]
  have 1: "validateFile \<lparr>name = ''Q3.Report.PDF'', size_bytes = 10485760\<rparr> = None"
    by (simp add: maxFileSize_def)
  from e a validateFile_accepts_iff [of "\<lparr>name = ''Q3.Report.PDF'', size_bytes = 10485761\<rparr>"]
  have 2: "validateFile \<lparr>name = ''Q3.Report.PDF'', size_bytes = 10485761\<rparr> = Some too_large_message"
    by (simp add: maxFileSize_def)
  from x a validateFile_accepts_iff [of "\<lparr>name = ''setup.exe'', size_bytes = 10485761\<rparr>"]
  have 3: "validateFile \<lparr>name = ''setup.exe'', size_bytes = 10485761\<rparr> = Some unsupported_type_message"
    by simp
  from e 1 2 3 show ?thesis by simp
qed

section \<open>Properties of numbers and durations\<close>

lemma decimal_not_Nil: "decimal n \<noteq> []"
  by (subst decimal.simps) simp

lemma decimal_value_snoc: "decimal_value (ds @ [c]) = 10 * decimal_value ds + (c - 48)"
  by (simp add: decimal_value_def)

lemma decimal_value_decimal: "decimal_value (decimal n) = n"
proof (induction n rule: decimal.induct)
  case (1 n)
  show ?case
  proof (cases "n < 10")
    case True
    then show ?thesis by (subst decimal.simps) (simp add: decimal_value_def)
  next
    case False
    with 1 have "decimal_value (decimal (n div 10)) = n div 10" by simp
    with False show ?thesis
      by (subst decimal.simps) (simp add: decimal_value_snoc)
  qed
qed

lemma decimal_digits: "list_all is_decimal_digit (decimal n)"
proof (induction n rule: decimal.induct)
  case (1 n)
  show ?case
  proof (cases "n < 10")
    case True
    then show ?thesis by (subst decimal.simps) (simp add: is_decimal_digit_def)
  next
    case False
    with 1 have "list_all is_decimal_digit (decimal (n div 10))" by simp
    moreover have "n mod 10 \<le> 9" by simp
    ultimately show ?thesis
      using False by (subst decimal.simps) (simp add: is_decimal_digit_def)
  qed
qed

lemma decimal_no_leading_zero: "hd (decimal n) = 48 \<Longrightarrow> n = 0"
proof (induction n rule: decimal.induct)
  case (1 n)
  show ?case
  proof (cases "n < 10")
    case True
    with "1.prems" show ?thesis by (subst (asm) decimal.simps) simp
  next
    case False
    with "1.prems" have "hd (decimal (n div 10)) = 48"
      by (subst (asm) decimal.simps) (simp add: decimal_not_Nil)
    with 1 False have "n div 10 = 0" by simp
    with False show ?thesis by simp
  qed
qed

lemma numToString_canonical:
  assumes "0 \<le> n"
  shows "decimal_value (numToString n) = nat n \<and> list_all is_decimal_digit (numToString n) \<and>
         numToString n \<noteq> [] \<and> (hd (numToString n) = 48 \<longrightarrow> n = 0)"
  using assms decimal_no_leading_zero [of "nat n"]
  by (auto simp: numToString_def decimal_value_decimal decimal_digits decimal_not_Nil)

lemma round_half_even_cases:
  "round_half_even n d = n div d \<or>
   (round_half_even n d = n div d + 1 \<and> d \<le> 2 * (n mod d))"
  by (auto simp: round_half_even_def Let_def)

lemma round_half_even_scaled_floor:
  fixes x d P :: int
  assumes d: "0 < d" and P: "d < 2 * P"
  shows "round_half_even (x * P) d div P = x div d"
proof -
  from d P have Ppos: "0 < P" by simp
  define a where "a = x div d"
  define r where "r = x mod d"
  define g where "g = (r * P) div d"
  define h where "h = (r * P) mod d"
  have x: "x = d * a + r" by (simp add: a_def r_def)
  have r: "0 \<le> r" "r < d" using d by (simp_all add: r_def)
  have rP: "r * P = d * g + h" by (simp add: g_def h_def)
  have h: "0 \<le> h" "h < d" using d by (simp_all add: h_def)
  have rPle: "r * P \<le> (d - 1) * P" using r Ppos by (intro mult_right_mono) simp_all
  have rP0: "0 \<le> r * P" using r Ppos by simp
  have g0: "0 \<le> g" using rP0 d by (simp add: g_def pos_imp_zdiv_nonneg_iff)
  have dg: "d * g \<le> (d - 1) * P" using rP rPle h by linarith
  have gP: "g < P"
  proof (rule ccontr)
    assume "\<not> g < P"
    then have "P \<le> g" by simp
    then have "d * P \<le> d * g" using d by (intro mult_left_mono) simp_all
    with dg have "d * P \<le> (d - 1) * P" by linarith
    then have "d * P \<le> d * P - P" by (simp add: algebra_simps)
    with Ppos show False by linarith
  qed
  have N: "x * P = d * (a * P + g) + h"
    using x rP by (simp add: algebra_simps)
  have Ndiv: "(x * P) div d = a * P + g"
    unfolding N using h d by simp
  have Nmod: "(x * P) mod d = h"
    unfolding N using h d by simp
  have m: "round_half_even (x * P) d = a * P + g \<or>
      (round_half_even (x * P) d = a * P + g + 1 \<and> d \<le> 2 * h)"
    using round_half_even_cases [of "x * P" d] by (simp add: Ndiv Nmod)
  have up: "d \<le> 2 * h \<Longrightarrow> g + 1 < P"
  proof (rule ccontr)
    assume dh: "d \<le> 2 * h" and "\<not> g + 1 < P"
    with gP have gv: "g = P - 1" by simp
    have "d * g = d * P - d" by (simp add: gv algebra_simps)
    moreover have "(d - 1) * P = d * P - P" by (simp add: algebra_simps)
    ultimately have "h \<le> d - P" using rP rPle by linarith
    with dh P show False by linarith
  qed
  from m obtain e where e: "round_half_even (x * P) d = a * P + e" "0 \<le> e" "e < P"
    using g0 gP up by (metis add.assoc add_nonneg_nonneg zero_le_one)
  have "(a * P + e) div P = a"
    using e(2,3) Ppos by simp
  with e(1) show ?thesis by (simp add: a_def)
qed

lemma mantissa_shift_gt:
  "0 < n \<Longrightarrow> n * 2 ^ j < d * 2 ^ 52 \<Longrightarrow> j < mantissa_shift d n"
proof (induction j arbitrary: n)
  case 0
  then show ?case by (subst mantissa_shift.simps) simp
next
  case (Suc j)
  have "n \<le> n * 2 ^ Suc j" by simp
  from this Suc.prems(2) have lt: "n < d * 2 ^ 52" by (rule le_less_trans)
  from Suc.prems have "(2 * n) * 2 ^ j < d * 2 ^ 52" by (simp add: mult_ac)
  with Suc.IH [of "2 * n"] Suc.prems(1) have "j < mantissa_shift d (2 * n)" by simp
  with lt Suc.prems(1) show ?case by (subst mantissa_shift.simps) simp
qed

lemma js_floor_div_exact:
  assumes d: "0 < d" "d < 2 ^ (j + 2)" and x: "nat \<bar>x\<bar> * 2 ^ j < d * 2 ^ 52"
  shows "js_floor_div x d = x div int d"
proof (cases "x = 0")
  case True
  then show ?thesis
    by (simp add: js_floor_div_def round_half_even_def mantissa_shift.simps [of d 0])
next
  case False
  let ?n = "nat \<bar>x\<bar>"
  let ?k = "mantissa_shift d ?n"
  from False have n: "0 < ?n" by simp
  have "?n \<le> ?n * 2 ^ j" by simp
  from this x have "?n < d * 2 ^ 52" by (rule le_less_trans)
  also have "d * 2 ^ 52 \<le> d * 2 ^ 53" by simp
  finally have lt: "?n < d * 2 ^ 53" .
  from mantissa_shift_gt [OF n x] have "j + 1 \<le> ?k" by simp
  then have "(2::nat) ^ (j + 1) \<le> 2 ^ ?k" by (intro power_increasing) simp_all
  then have "(2::nat) ^ (j + 2) \<le> 2 * 2 ^ ?k" by simp
  with d(2) have "d < 2 * 2 ^ ?k" by linarith
  then have "int d < 2 * 2 ^ ?k" by (metis of_nat_less_iff of_nat_mult of_nat_numeral of_nat_power)
  with round_half_even_scaled_floor [of "int d" "2 ^ ?k" x] d(1)
  have "round_half_even (x * 2 ^ ?k) (int d) div 2 ^ ?k = x div int d" by simp
  with lt show ?thesis by (simp add: js_floor_div_def Let_def)
qed

lemma bit_length_le: "n < 2 ^ k \<Longrightarrow> bit_length n \<le> k"
proof (induction k arbitrary: n)
  case 0
  then show ?case by (simp add: bit_length.simps)
next
  case (Suc k)
  show ?case
  proof (cases "n = 0")
    case True
    then show ?thesis by (simp add: bit_length.simps)
  next
    case False
    from Suc.prems have "n div 2 < 2 ^ k" by simp
    with Suc.IH have "bit_length (n div 2) \<le> k" by simp
    with False show ?thesis by (subst bit_length.simps) simp
  qed
qed

lemma round_half_even_one: "round_half_even n 1 = n"
  by (simp add: round_half_even_def)

lemma round_half_even_two: "\<bar>2 * round_half_even n 2 - n\<bar> \<le> 1"
  by (simp add: round_half_even_def Let_def) presburger

lemma round_half_even_two_even: "even n \<Longrightarrow> 2 * round_half_even n 2 = n"
  by (auto simp: round_half_even_def Let_def elim: evenE)

lemma to_double_near:
  assumes "\<bar>n\<bar> < 2 ^ 54"
  shows "\<bar>to_double n - n\<bar> \<le> 1"
proof -
  from assms have "nat \<bar>n\<bar> < 2 ^ 54" by (simp add: nat_less_iff)
  then have "bit_length (nat \<bar>n\<bar>) \<le> 54" by (rule bit_length_le)
  then have "bit_length (nat \<bar>n\<bar>) - 53 = 0 \<or> bit_length (nat \<bar>n\<bar>) - 53 = 1" by linarith
  then show ?thesis
    using round_half_even_two [of n] by (auto simp: to_double_def round_half_even_one)
qed

lemma to_double_exact:
  assumes "\<bar>n\<bar> \<le> 2 ^ 53"
  shows "to_double n = n"
proof (cases "\<bar>n\<bar> = 2 ^ 53")
  case True
  then have "n = 2 ^ 53 \<or> n = - (2 ^ 53)" by linarith
  then have e: "even n" by auto
  from True have "nat \<bar>n\<bar> < 2 ^ 54" by (simp add: nat_less_iff)
  then have "bit_length (nat \<bar>n\<bar>) \<le> 54" by (rule bit_length_le)
  then have "bit_length (nat \<bar>n\<bar>) - 53 = 0 \<or> bit_length (nat \<bar>n\<bar>) - 53 = 1" by linarith
  then show ?thesis
    using round_half_even_two_even [OF e] by (auto simp: to_double_def round_half_even_one)
next
  case False
  with assms have "nat \<bar>n\<bar> < 2 ^ 53" by (simp add: nat_less_iff)
  then have "bit_length (nat \<bar>n\<bar>) \<le> 53" by (rule bit_length_le)
  then show ?thesis by (simp add: to_double_def round_half_even_one)
qed


lemma js_floor_div_1000:
  assumes "\<bar>x\<bar> < 17592186044416000"
  shows "js_floor_div x 1000 = x div 1000"
proof -
  from assms have "nat \<bar>x\<bar> < 17592186044416000" by linarith
  then have "nat \<bar>x\<bar> * 2 ^ 8 < 1000 * 2 ^ 52" by simp
  with js_floor_div_exact [of 1000 8 x] show ?thesis by simp
qed

lemma js_floor_div_60:
  assumes "0 \<le> x" and "x < 3600"
  shows "js_floor_div x 60 = x div 60"
proof -
  from assms have "nat \<bar>x\<bar> < 3600" by linarith
  then have "nat \<bar>x\<bar> * 2 ^ 4 < 60 * 2 ^ 52" by simp
  with js_floor_div_exact [of 60 4 x] show ?thesis by simp
qed

lemma js_floor_div_3600:
  assumes "0 \<le> x" and "x < 2 ^ 52"
  shows "js_floor_div x 3600 = x div 3600"
proof -
  from assms have "nat \<bar>x\<bar> < 2 ^ 52" by (simp add: nat_less_iff)
  then have "nat \<bar>x\<bar> * 2 ^ 10 < 3600 * 2 ^ 52" by simp
  with js_floor_div_exact [of 3600 10 x] show ?thesis by simp
qed

lemma duration_text_negative: "s < 0 \<Longrightarrow> duration_text s = calc_error_text"
  by (simp add: duration_text_def)

lemma duration_text_seconds:
  "0 \<le> s \<Longrightarrow> s < 60 \<Longrightarrow> duration_text s = numToString s @ seconds_unit"
  by (simp add: duration_text_def)

lemma duration_text_minutes_seconds:
  assumes "60 \<le> s" "s < 3600" "s mod 60 \<noteq> 0"
  shows "duration_text s =
    numToString (s div 60) @ minutes_unit @ [32] @ numToString (s mod 60) @ seconds_unit"
proof -
  have "0 \<le> s mod 60" by simp
  with assms(3) have "0 < s mod 60" by linarith
  moreover from assms(1,2) have "js_floor_div s 60 = s div 60" by (simp add: js_floor_div_60)
  ultimately show ?thesis using assms(1,2) by (simp add: duration_text_def Let_def)
qed

lemma duration_text_minutes:
  assumes "60 \<le> s" "s < 3600" "s mod 60 = 0"
  shows "duration_text s = numToString (s div 60) @ minutes_unit"
proof -
  from assms(1,2) have "js_floor_div s 60 = s div 60" by (simp add: js_floor_div_60)
  with assms show ?thesis by (simp add: duration_text_def Let_def)
qed

lemma duration_text_floors:
  assumes "3600 \<le> s" "s < 2 ^ 52"
  shows "js_floor_div s 3600 = s div 3600 \<and> js_floor_div (s mod 3600) 60 = (s mod 3600) div 60"
proof -
  have "0 \<le> s mod 3600" "s mod 3600 < 3600" by simp_all
  then have "js_floor_div (s mod 3600) 60 = (s mod 3600) div 60" by (rule js_floor_div_60)
  moreover from assms have "js_floor_div s 3600 = s div 3600" by (intro js_floor_div_3600) simp_all
  ultimately show ?thesis by simp
qed

lemma duration_text_hours_minutes:
  assumes "3600 \<le> s" "s < 2 ^ 52" "(s mod 3600) div 60 \<noteq> 0"
  shows "duration_text s =
    numToString (s div 3600) @ hours_unit @ [32] @ numToString ((s mod 3600) div 60) @ minutes_unit"
proof -
  have "0 \<le> (s mod 3600) div 60" by simp
  with assms(3) have "0 < (s mod 3600) div 60" by linarith
  with assms(1) duration_text_floors [OF assms(1,2)] show ?thesis
    by (simp add: duration_text_def Let_def)
qed

lemma duration_text_hours:
  assumes "3600 \<le> s" "s < 2 ^ 52" "(s mod 3600) div 60 = 0"
  shows "duration_text s = numToString (s div 3600) @ hours_unit"
  using assms duration_text_floors [OF assms(1,2)] by (simp add: duration_text_def Let_def)

lemma formatDuration_valid:
  assumes "parse startTime = Some a"
    and "((endTime = None \<or> endTime = Some []) \<and> b = now) \<or>
         (\<exists>e. endTime = Some e \<and> e \<noteq> [] \<and> parse e = Some b)"
    and "\<bar>a\<bar> \<le> max_time_value" and "\<bar>b\<bar> \<le> max_time_value"
  shows "formatDuration parse now startTime endTime =
           Inr (duration_text (to_double (b - a) div 1000))"
    and "to_double (b - a) div 1000 < 2 ^ 52"
proof -
  from assms(3,4) have d: "\<bar>b - a\<bar> \<le> 17280000000000000"
    by (simp add: max_time_value_def)
  then have "\<bar>b - a\<bar> < 2 ^ 54" by simp
  then have "\<bar>to_double (b - a) - (b - a)\<bar> \<le> 1" by (rule to_double_near)
  with d have dd: "\<bar>to_double (b - a)\<bar> < 17592186044416000" by linarith
  then have q: "js_floor_div (to_double (b - a)) 1000 = to_double (b - a) div 1000"
    by (rule js_floor_div_1000)
  from assms(1,2) have "formatDuration parse now startTime endTime =
           Inr (duration_text (js_floor_div (to_double (b - a)) 1000))"
    by (auto simp: formatDuration_def Let_def)
  then show "formatDuration parse now startTime endTime =
           Inr (duration_text (to_double (b - a) div 1000))"
    by (simp only: q)
  from dd have "to_double (b - a) < 17592186044416000" by linarith
  then have "to_double (b - a) div 1000 < 17592186044416" by presburger
  then show "to_double (b - a) div 1000 < 2 ^ 52" by simp
qed

text \<open>
  For a start or an end that is not a valid date the function returns no text: logging
  \<open>toISOString()\<close> throws \<open>RangeError\<close> before the branches.
\<close>

theorem formatDuration_invalid_date_counterexample:
  "sample_parse ''yesterday'' = None \<and>
   formatDuration sample_parse 1757548800000 ''yesterday'' None = Inl RangeError \<and>
   formatDuration sample_parse 1757548800000 ''2025-09-11T00:00:00.000Z'' (Some ''soon'') =
     Inl RangeError"
  by (simp add: formatDuration_def sample_parse_def)

text \<open>
  Claim C10, amended. For a valid start date and a valid end date, \<open>formatDuration\<close>
  returns a text that is bucketed on \<open>s = floor((end - start) / 1000)\<close> as JavaScript
  computes it, which is the exact quotient whenever the two dates are at most \<open>2 ^ 53\<close>
  milliseconds apart: the error text when \<open>s < 0\<close>, seconds below a minute, minutes and
  (when not zero) seconds below an hour, hours and (when not zero) minutes from an hour on.
  Each number is printed as its decimal numeral without leading zeros. Without an end time
  the current time is the end.
\<close>

theorem formatDuration_buckets:
  assumes "parse startTime = Some a"
    and "((endTime = None \<or> endTime = Some []) \<and> b = now) \<or>
         (\<exists>e. endTime = Some e \<and> e \<noteq> [] \<and> parse e = Some b)"
    and "\<bar>a\<bar> \<le> max_time_value" and "\<bar>b\<bar> \<le> max_time_value"
  shows "let s = to_double (b - a) div 1000; result = formatDuration parse now startTime endTime in
    (\<bar>b - a\<bar> \<le> 2 ^ 53 \<longrightarrow> s = (b - a) div 1000) \<and>
    (s < 0 \<longrightarrow> result = Inr calc_error_text) \<and>
    (0 \<le> s \<and> s < 60 \<longrightarrow> result = Inr (numToString s @ seconds_unit)) \<and>
    (60 \<le> s \<and> s < 3600 \<and> s mod 60 \<noteq> 0 \<longrightarrow>
       result = Inr (numToString (s div 60) @ minutes_unit @ [32] @
                     numToString (s mod 60) @ seconds_unit)) \<and>
    (60 \<le> s \<and> s < 3600 \<and> s mod 60 = 0 \<longrightarrow>
       result = Inr (numToString (s div 60) @ minutes_unit)) \<and>
    (3600 \<le> s \<and> (s mod 3600) div 60 \<noteq> 0 \<longrightarrow>
       result = Inr (numToString (s div 3600) @ hours_unit @ [32] @
                     numToString ((s mod 3600) div 60) @ minutes_unit)) \<and>
    (3600 \<le> s \<and> (s mod 3600) div 60 = 0 \<longrightarrow>
       result = Inr (numToString (s div 3600) @ hours_unit)) \<and>
    (\<forall>n. 0 \<le> n \<longrightarrow>
       decimal_value (numToString n) = nat n \<and> list_all is_decimal_digit (numToString n) \<and>
       numToString n \<noteq> [] \<and> (hd (numToString n) = 48 \<longrightarrow> n = 0))"
proof -
  note v = formatDuration_valid [OF assms]
  have e: "\<bar>b - a\<bar> \<le> 2 ^ 53 \<longrightarrow> to_double (b - a) div 1000 = (b - a) div 1000"
    by (simp add: to_double_exact)
  have n: "\<forall>n. 0 \<le> n \<longrightarrow>
       decimal_value (numToString n) = nat n \<and> list_all is_decimal_digit (numToString n) \<and>
       numToString n \<noteq> [] \<and> (hd (numToString n) = 48 \<longrightarrow> n = 0)"
    using numToString_canonical by blast
  show ?thesis
    unfolding Let_def v(1)
    using e n v(2)
    by (intro conjI impI)
      (simp_all add: duration_text_negative duration_text_seconds duration_text_minutes_seconds
        duration_text_minutes duration_text_hours_minutes duration_text_hours)
qed


lemma sample_parse_values:
  "sample_parse ''2025-09-11T00:00:00.000Z'' = Some 1757548800000"
  "sample_parse ''2025-09-11T12:34:56.999Z'' = Some 1757594096999"
  "sample_parse ''2025-09-11T00:00:59.000Z'' = Some 1757548859000"
  by (simp_all add: sample_parse_def)

theorem formatDuration_buckets_witness:
  "formatDuration sample_parse 1757549554000 ''2025-09-11T00:00:00.000Z''
      (Some ''2025-09-11T12:34:56.999Z'') = Inr [49, 50, 49884, 44036, 32, 51, 52, 48516] \<and>
   formatDuration sample_parse 1757549554000 ''2025-09-11T00:00:00.000Z''
      (Some ''2025-09-11T00:00:59.000Z'') = Inr [53, 57, 52488] \<and>
   formatDuration sample_parse 1757549554000 ''2025-09-11T00:00:00.000Z'' None =
      Inr [49, 50, 48516, 32, 51, 52, 52488]"
proof -
  have d: "to_double 45296999 = 45296999" "to_double 59000 = 59000" "to_double 754000 = 754000"
    by (simp_all add: to_double_exact)
  have 1: "formatDuration sample_parse 1757549554000 ''2025-09-11T00:00:00.000Z''
      (Some ''2025-09-11T12:34:56.999Z'') = Inr [49, 50, 49884, 44036, 32, 51, 52, 48516]"
    using formatDuration_buckets [of sample_parse "''2025-09-11T00:00:00.000Z''" 1757548800000
        "Some ''2025-09-11T12:34:56.999Z''" 1757594096999 1757549554000]
    by (simp add: sample_parse_values d Let_def max_time_value_def numToString_def
        decimal.simps hours_unit_def minutes_unit_def)
  have 2: "formatDuration sample_parse 1757549554000 ''2025-09-11T00:00:00.000Z''
      (Some ''2025-09-11T00:00:59.000Z'') = Inr [53, 57, 52488]"
    using formatDuration_buckets [of sample_parse "''2025-09-11T00:00:00.000Z''" 1757548800000
        "Some ''2025-09-11T00:00:59.000Z''" 1757548859000 1757549554000]
    by (simp add: sample_parse_values d Let_def max_time_value_def numToString_def
        decimal.simps seconds_unit_def)
  have 3: "formatDuration sample_parse 1757549554000 ''2025-09-11T00:00:00.000Z'' None =
      Inr [49, 50, 48516, 32, 51, 52, 52488]"
    using formatDuration_buckets [of sample_parse "''2025-09-11T00:00:00.000Z''" 1757548800000
        None 1757549554000 1757549554000]
    by (simp add: sample_parse_values d Let_def max_time_value_def numToString_def
        decimal.simps seconds_unit_def minutes_unit_def)
  from 1 2 3 show ?thesis by simp
qed

section \<open>Properties of slide navigation\<close>

lemma fetchDeckData_response_bounds:
  assumes "index_in_bounds n s" and "delivers_slide_count n (DeckDataResponse c st r)"
  shows "index_in_bounds n (fetchDeckData_response c st r s)"
  using assms
  by (cases r) (auto simp: index_in_bounds_def fetchDeckData_response_def Let_def split: option.splits)

lemma preview_step_bounds:
  assumes "index_in_bounds n s" and "delivers_slide_count n e"
  shows "index_in_bounds n (preview_step e s)"
proof (cases e)
  case ClickNext
  with assms(1) show ?thesis
    by (auto simp: index_in_bounds_def next_disabled_def nextSlide_def fetchSlideVersions_def
        Let_def split: option.splits)
next
  case ClickPrev
  with assms(1) show ?thesis
    by (auto simp: index_in_bounds_def prev_disabled_def prevSlide_def fetchSlideVersions_def
        Let_def split: option.splits)
next
  case (ClickSlide i)
  with assms(1) show ?thesis
    by (auto simp: index_in_bounds_def selectSlide_def fetchSlideVersions_def
        Let_def split: option.splits)
next
  case ClickVersionHistory
  with assms(1) show ?thesis
    by (auto simp: index_in_bounds_def toggleVersionHistory_def fetchSlideVersions_def
        Let_def split: option.splits)
next
  case (TypePrompt p)
  with assms(1) show ?thesis
    by (auto simp: index_in_bounds_def split: option.splits)
next
  case ClickModify
  with assms(1) show ?thesis
    by (auto simp: index_in_bounds_def handleModifySlide_def Let_def split: option.splits)
next
  case PressEnter
  with assms(1) show ?thesis
    by (auto simp: index_in_bounds_def handleModifySlide_def Let_def split: option.splits)
next
  case (ModifyResponse k r)
  with assms(1) show ?thesis
    by (cases r) (auto simp: index_in_bounds_def handleModifySlide_response_def split: option.splits)
next
  case (ClickRevert v)
  with assms(1) show ?thesis
    by (auto simp: index_in_bounds_def revertToVersion_def split: option.splits)
next
  case (ClickSave f)
  with assms(1) show ?thesis
    by (cases f) (auto simp: index_in_bounds_def handleSaveSlide_def split: option.splits)
next
  case (SaveResponse k b r)
  with assms(1) show ?thesis
    by (cases r) (auto simp: index_in_bounds_def handleSaveSlide_response_def
        fetchSlideVersions_def split: option.splits)
next
  case (VersionsResponse r)
  with assms(1) show ?thesis
    by (auto simp: index_in_bounds_def fetchSlideVersions_response_def split: option.splits)
next
  case (DeckDataResponse c st r)
  with assms show ?thesis by (simp add: fetchDeckData_response_bounds)
next
  case (PollTick st c st' r)
  show ?thesis
  proof (cases "\<exists>v. st = Some v \<and> v \<noteq> ''modifying''")
    case True
    from assms(2) PollTick have "delivers_slide_count n (DeckDataResponse c st' r)"
      by (cases r) simp_all
    with assms(1) have "index_in_bounds n (fetchDeckData_response c st' r s)"
      by (rule fetchDeckData_response_bounds)
    then have "index_in_bounds n ((fetchDeckData_response c st' r s)\<lparr>modifyingSlides := {}\<rparr>)"
      by (simp add: index_in_bounds_def split: option.splits)
    with True PollTick show ?thesis by (auto simp: pollTick_def)
  next
    case False
    with PollTick have "preview_step e s = s" by (auto simp: pollTick_def split: option.splits)
    with assms(1) show ?thesis by simp
  qed
qed

lemma preview_run_bounds:
  "index_in_bounds n s \<Longrightarrow> list_all (delivers_slide_count n) es \<Longrightarrow>
   index_in_bounds n (preview_run es s)"
proof (induction es arbitrary: s)
  case Nil
  then show ?case by simp
next
  case (Cons e es)
  from Cons.prems have "index_in_bounds n (preview_step e s)"
    by (simp add: preview_step_bounds)
  with Cons show ?case by simp
qed

lemma nextSlide_bound:
  assumes "deckData s = Some d" "currentSlide s < length (slides d)"
  shows "deckData (fst (nextSlide s)) = Some d \<and> currentSlide (fst (nextSlide s)) < length (slides d)"
  using assms by (auto simp: nextSlide_def fetchSlideVersions_def Let_def)

lemma prevSlide_bound:
  assumes "deckData s = Some d" "currentSlide s < length (slides d)"
  shows "deckData (fst (prevSlide s)) = Some d \<and> currentSlide (fst (prevSlide s)) < length (slides d)"
  using assms by (auto simp: prevSlide_def fetchSlideVersions_def Let_def)

lemma nav_step_bound:
  assumes "deckData s = Some d" "currentSlide s < length (slides d)"
  shows "deckData (nav_step c s) = Some d \<and> currentSlide (nav_step c s) < length (slides d)"
  using assms nextSlide_bound prevSlide_bound by (cases c) simp_all

lemma nav_run_bound:
  "deckData s = Some d \<Longrightarrow> currentSlide s < length (slides d) \<Longrightarrow>
   deckData (nav_run cs s) = Some d \<and> currentSlide (nav_run cs s) < length (slides d)"
proof (induction cs arbitrary: s)
  case Nil
  then show ?case by simp
next
  case (Cons c cs)
  from nav_step_bound [OF Cons.prems] Cons.IH show ?case by simp
qed

lemma nextSlide_noop_iff:
  assumes "deckData s = Some d" "currentSlide s < length (slides d)"
  shows "nextSlide s = (s, []) \<longleftrightarrow> currentSlide s = length (slides d) - 1"
proof
  assume eq: "nextSlide s = (s, [])"
  show "currentSlide s = length (slides d) - 1"
  proof (rule ccontr)
    assume "currentSlide s \<noteq> length (slides d) - 1"
    with assms have lt: "int (currentSlide s) < int (length (slides d)) - 1" by linarith
    have "currentSlide (fst (nextSlide s)) = currentSlide s + 1"
      using assms(1) lt by (simp add: nextSlide_def fetchSlideVersions_def Let_def)
    with eq show False by simp
  qed
next
  assume "currentSlide s = length (slides d) - 1"
  with assms show "nextSlide s = (s, [])" by (simp add: nextSlide_def)
qed

lemma prevSlide_noop_iff: "prevSlide s = (s, []) \<longleftrightarrow> currentSlide s = 0"
proof
  assume eq: "prevSlide s = (s, [])"
  show "currentSlide s = 0"
  proof (rule ccontr)
    assume "currentSlide s \<noteq> 0"
    then have "currentSlide (fst (prevSlide s)) = currentSlide s - 1"
      by (simp add: prevSlide_def fetchSlideVersions_def Let_def)
    with eq \<open>currentSlide s \<noteq> 0\<close> show False by simp
  qed
next
  assume "currentSlide s = 0"
  then show "prevSlide s = (s, [])" by (simp add: prevSlide_def)
qed

lemma next_disabled_iff:
  "slides d \<noteq> [] \<Longrightarrow> next_disabled d s \<longleftrightarrow> currentSlide s = length (slides d) - 1"
  by (cases "slides d") (auto simp: next_disabled_def)

text \<open>
  Claim C9. With a deck of at least one slide loaded and the index in range, every sequence
  of \<open>nextSlide\<close> and \<open>prevSlide\<close> calls keeps the index in range;
  \<open>prevSlide\<close> does nothing exactly at index 0 and \<open>nextSlide\<close> exactly at the last
  index, and these are exactly the indices at which the two buttons are disabled. The index
  also stays in range under everything else the user and the network can do, as long as the
  deck keeps its number of slides.
\<close>

theorem slide_index_in_bounds:
  assumes "deckData s = Some d" and "slides d \<noteq> []" and "currentSlide s < length (slides d)"
  shows "currentSlide (nav_run cs s) < length (slides d) \<and>
         deckData (nav_run cs s) = Some d \<and>
         (prevSlide s = (s, []) \<longleftrightarrow> currentSlide s = 0) \<and>
         (nextSlide s = (s, []) \<longleftrightarrow> currentSlide s = length (slides d) - 1) \<and>
         (prev_disabled s \<longleftrightarrow> currentSlide s = 0) \<and>
         (next_disabled d s \<longleftrightarrow> currentSlide s = length (slides d) - 1) \<and>
         (list_all (delivers_slide_count (length (slides d))) es \<longrightarrow>
            index_in_bounds (length (slides d)) (preview_run es s))"
proof -
  from assms(1,3) have "index_in_bounds (length (slides d)) s"
    by (simp add: index_in_bounds_def)
  then have "list_all (delivers_slide_count (length (slides d))) es \<longrightarrow>
            index_in_bounds (length (slides d)) (preview_run es s)"
    by (simp add: preview_run_bounds)
  then show ?thesis
    using nav_run_bound [OF assms(1,3), of cs] nextSlide_noop_iff [OF assms(1,3)]
      prevSlide_noop_iff [of s] next_disabled_iff [OF assms(2), of s]
    by (simp add: prev_disabled_def)
qed

theorem slide_index_in_bounds_witness:
  "currentSlide (nav_run [Prev, Next, Next, Next, Next, Prev]
      (initial_preview\<lparr>deckData := Some three_slides\<rparr>)) = 1 \<and>
   prevSlide (initial_preview\<lparr>deckData := Some three_slides\<rparr>) =
     (initial_preview\<lparr>deckData := Some three_slides\<rparr>, []) \<and>
   prev_disabled (initial_preview\<lparr>deckData := Some three_slides\<rparr>) \<and>
   \<not> next_disabled three_slides (initial_preview\<lparr>deckData := Some three_slides\<rparr>)"
  using slide_index_in_bounds [of "initial_preview\<lparr>deckData := Some three_slides\<rparr>" three_slides
      "[Prev, Next, Next, Next, Next, Prev]"]
  by (simp add: initial_preview_def three_slides_def nextSlide_def prevSlide_def Let_def
      prev_disabled_def next_disabled_def)

section \<open>Properties of the declared status unions\<close>

lemma generating_in_Deck_status: "''generating'' \<in> set Deck_status_values"
  by (simp add: Deck_status_values_def)

lemma generating_not_in_enum: "''generating'' \<notin> set wire_status_enum"
  by (simp add: wire_status_enum_def)

lemma Deck_status_declared: "Deck_status_values \<in> set declared_status_unions"
  by (simp add: declared_status_unions_def)

text \<open>
  The status field of the row type of the deck list admits \<open>generating\<close>, which is
  none of the eight values, so not every declared union is the eight-value enum.
\<close>

theorem status_unions_counterexample:
  "Deck_status_values \<in> set declared_status_unions \<and>
   ''generating'' \<in> set Deck_status_values \<and>
   ''generating'' \<notin> set wire_status_enum \<and>
   set Deck_status_values \<noteq> set wire_status_enum"
  using generating_in_Deck_status generating_not_in_enum Deck_status_declared by auto

lemma DeckStatus_status_is_enum: "set DeckStatus_status_values = set wire_status_enum"
  by (simp only: DeckStatus_status_values_def wire_status_enum_def)

lemma Deck_status_within: "set Deck_status_values \<subseteq> set (''generating'' # wire_status_enum)"
  by (simp add: Deck_status_values_def wire_status_enum_def)

lemma page_DeckStatus_status_within: "set page_DeckStatus_status_values \<subseteq> set (''generating'' # wire_status_enum)"
  by (simp add: page_DeckStatus_status_values_def wire_status_enum_def)

text \<open>
  Claim C1, amended. The status field of \<open>DeckStatus\<close> in preview/types.ts admits exactly
  the eight values of the wire enum. The row type of the deck list admits \<open>generating\<close>,
  \<open>completed\<close>, \<open>failed\<close>, \<open>cancelled\<close>, and the \<open>DeckStatus\<close> that
  preview/page.tsx declares admits \<open>completed\<close>, \<open>modifying\<close>, \<open>generating\<close>,
  \<open>failed\<close>, \<open>cancelled\<close>. Every value a declared union admits is one of the eight or
  \<open>generating\<close>.
\<close>

theorem declared_status_unions_values:
  "set DeckStatus_status_values = set wire_status_enum \<and>
   Deck_status_values = [''generating'', ''completed'', ''failed'', ''cancelled''] \<and>
   page_DeckStatus_status_values =
     [''completed'', ''modifying'', ''generating'', ''failed'', ''cancelled''] \<and>
   list_all (\<lambda>u. set u \<subseteq> set (''generating'' # wire_status_enum)) declared_status_unions"
proof -
  have "set DeckStatus_status_values \<subseteq> set (''generating'' # wire_status_enum)"
    using DeckStatus_status_is_enum by auto
  with Deck_status_within page_DeckStatus_status_within have "list_all (\<lambda>u. set u \<subseteq> set (''generating'' # wire_status_enum)) declared_status_unions"
    by (simp only: declared_status_unions_def list.pred_inject)
  with DeckStatus_status_is_enum show ?thesis
    by (simp only: Deck_status_values_def page_DeckStatus_status_values_def)
qed

section \<open>Properties of deck creation\<close>

lemma length_strip_le: "length (strip s) \<le> length s"
proof -
  have "length (strip s) \<le> length (dropWhile py_whitespace s)"
    using length_dropWhile_le [of py_whitespace "rev (dropWhile py_whitespace s)"]
    by (simp add: strip_def)
  also have "\<dots> \<le> length s" by (rule length_dropWhile_le)
  finally show ?thesis .
qed

text \<open>
  What holds of the request model and of the home page: a prompt that is empty, blank,
  shorter than 5 or longer than 5000 characters as received is a \<open>ValidationError\<close>; an
  accepted prompt is stored stripped, with at most 5000 characters; and the submit handler
  sends nothing when the trimmed prompt is empty.
\<close>

lemma CreateDeckRequest_rejects:
  "length (prompt r) < 5 \<or> length (prompt r) > 5000 \<or> strip (prompt r) = [] \<Longrightarrow>
   CreateDeckRequest r = Inl ValidationError"
  by (auto simp: CreateDeckRequest_def validate_prompt_def)

lemma CreateDeckRequest_stores_stripped:
  assumes "CreateDeckRequest r = Inr r'"
  shows "r' = r\<lparr>prompt := strip (prompt r)\<rparr> \<and> length (prompt r') \<le> 5000"
proof -
  from assms have le: "length (prompt r) \<le> 5000" and r': "r' = r\<lparr>prompt := strip (prompt r)\<rparr>"
    by (auto simp: CreateDeckRequest_def validate_prompt_def split: if_splits)
  from length_strip_le [of "prompt r"] le have "length (strip (prompt r)) \<le> 5000" by linarith
  with r' show ?thesis by simp
qed

lemma handleSubmit_blank: "trim p = [] \<Longrightarrow> handleSubmit p = []"
  by (simp add: handleSubmit_def)

lemma handleSubmit_sends: "CreateDeck q \<in> set (handleSubmit p) \<Longrightarrow> q = p \<and> trim q \<noteq> []"
  by (auto simp: handleSubmit_def split: if_splits)

lemma strip_padded: "strip ''a    '' = ''a''"
  by (simp add: strip_def py_whitespace_def)

lemma trim_padded: "trim ''a    '' = ''a''"
  by (simp add: trim_def js_whitespace_def)

text \<open>
  Claim C5. A request is to be accepted only when the trimmed prompt has between 5 and 5000
  characters. The prompt of one letter and four spaces has five characters as received, so
  the length constraint passes; the validator then strips it, and the request is accepted
  with a stored prompt of one character, below the field's own minimum. The home page sends
  this prompt, since its trimmed form is not empty.
\<close>

theorem CreateDeckRequest_stores_short_prompt:
  "CreateDeckRequest \<lparr>prompt = ''a    '', style = None, files = None\<rparr> =
     Inr \<lparr>prompt = ''a'', style = None, files = None\<rparr> \<and>
   length (strip ''a    '') = 1 \<and>
   handleSubmit ''a    '' = [CreateDeck ''a    '']"
  by (simp add: CreateDeckRequest_def validate_prompt_def strip_padded handleSubmit_def
      trim_padded)

section \<open>Properties of slide addressing\<close>

text \<open>
  Claim C7. The number shown for the slide at index \<open>i\<close> is \<open>i + 1\<close>, and the four
  requests of the preview (modify, list versions, revert, save) carry that number as the
  slide order. Whatever a handler or its continuation sends for a slide is for the slide
  that is shown: the one at the index the handler read, or, after navigating, the new one.
\<close>

theorem slide_order_is_index_plus_one:
  "displayed_slide_number s = currentSlide s + 1 \<and>
   (trim (modificationPrompt s) \<noteq> [] \<longrightarrow>
      snd (handleModifySlide s) =
        [Modify (displayed_slide_number s) (trim (modificationPrompt s))]) \<and>
   snd (fetchSlideVersions (displayed_slide_number s) s) = [GetVersions (displayed_slide_number s)] \<and>
   snd (revertToVersion v s) = [RevertVersion (displayed_slide_number s) v] \<and>
   snd (handleSaveSlide (Some h) s) =
     [SaveSlide (displayed_slide_number s) (''<!DOCTYPE html>'' @ [CHR 0x0A] @ h)] \<and>
   addresses_only (displayed_slide_number s) (snd (handleModifySlide s)) \<and>
   addresses_only (displayed_slide_number s) (snd (revertToVersion v s)) \<and>
   addresses_only (displayed_slide_number s) (revertToVersion_response (currentSlide s) r) \<and>
   addresses_only (displayed_slide_number s) (snd (handleSaveSlide f s)) \<and>
   addresses_only (displayed_slide_number s)
     (snd (handleSaveSlide_response (currentSlide s) b r s')) \<and>
   addresses_only (displayed_slide_number s) (snd (toggleVersionHistory s)) \<and>
   addresses_only (displayed_slide_number (fst (nextSlide s))) (snd (nextSlide s)) \<and>
   addresses_only (displayed_slide_number (fst (prevSlide s))) (snd (prevSlide s)) \<and>
   addresses_only (displayed_slide_number (fst (selectSlide i s))) (snd (selectSlide i s))"
proof -
  have 1: "addresses_only (displayed_slide_number s) (snd (handleModifySlide s))"
    by (simp add: addresses_only_def displayed_slide_number_def handleModifySlide_def Let_def)
  have 2: "addresses_only (displayed_slide_number s) (revertToVersion_response (currentSlide s) r)"
    by (cases r) (simp_all add: addresses_only_def displayed_slide_number_def revertToVersion_response_def)
  have 3: "addresses_only (displayed_slide_number s) (snd (handleSaveSlide f s))"
    by (cases f) (simp_all add: addresses_only_def displayed_slide_number_def handleSaveSlide_def)
  have 4: "addresses_only (displayed_slide_number s)
     (snd (handleSaveSlide_response (currentSlide s) b r s'))"
    by (cases r) (simp_all add: addresses_only_def displayed_slide_number_def
        handleSaveSlide_response_def fetchSlideVersions_def)
  have 5: "addresses_only (displayed_slide_number s) (snd (toggleVersionHistory s))"
    by (simp add: addresses_only_def displayed_slide_number_def toggleVersionHistory_def
        fetchSlideVersions_def Let_def)
  have 6: "addresses_only (displayed_slide_number (fst (nextSlide s))) (snd (nextSlide s))"
    by (simp add: addresses_only_def displayed_slide_number_def nextSlide_def
        fetchSlideVersions_def Let_def split: option.splits)
  have 7: "addresses_only (displayed_slide_number (fst (prevSlide s))) (snd (prevSlide s))"
    by (simp add: addresses_only_def displayed_slide_number_def prevSlide_def
        fetchSlideVersions_def Let_def)
  have 8: "addresses_only (displayed_slide_number (fst (selectSlide i s))) (snd (selectSlide i s))"
    by (simp add: addresses_only_def displayed_slide_number_def selectSlide_def
        fetchSlideVersions_def Let_def)
  have 9: "trim (modificationPrompt s) \<noteq> [] \<longrightarrow>
      snd (handleModifySlide s) =
        [Modify (displayed_slide_number s) (trim (modificationPrompt s))]"
    by (simp add: displayed_slide_number_def handleModifySlide_def Let_def)
  show ?thesis
    using 1 2 3 4 5 6 7 8 9
    by (simp add: displayed_slide_number_def revertToVersion_def handleSaveSlide_def
        fetchSlideVersions_def addresses_only_def)
qed

theorem slide_order_is_index_plus_one_witness:
  "snd (handleModifySlide third_slide_shown) = [Modify 3 ''make it bolder''] \<and>
   snd (revertToVersion ''v1'' third_slide_shown) = [RevertVersion 3 ''v1''] \<and>
   snd (fetchSlideVersions 3 third_slide_shown) = [GetVersions 3] \<and>
   snd (handleSaveSlide (Some ''<html></html>'') third_slide_shown) =
     [SaveSlide 3 (''<!DOCTYPE html>'' @ [CHR 0x0A] @ ''<html></html>'')] \<and>
   displayed_slide_number third_slide_shown = 3"
proof -
  have t: "trim (modificationPrompt third_slide_shown) = ''make it bolder''"
    by (simp add: third_slide_shown_def initial_preview_def trim_def js_whitespace_def)
  have n: "displayed_slide_number third_slide_shown = 3"
    by (simp add: displayed_slide_number_def third_slide_shown_def initial_preview_def)
  from slide_order_is_index_plus_one [of third_slide_shown "''v1''" "''<html></html>''"] t n
  show ?thesis by simp
qed

section \<open>Properties of the version store\<close>

lemma frozen_part_flag [simp]: "frozen_part (v\<lparr>is_current := b\<rparr>) = frozen_part v"
  by (simp add: frozen_part_def)

lemma version_invariant_new_slide: "version_invariant (new_slide n t)"
  by (simp add: version_invariant_def new_slide_def version_ids_def)

lemma filter_current_cleared: "filter is_current (map (\<lambda>v. v\<lparr>is_current := False\<rparr>) vs) = []"
  by (induction vs) simp_all

lemma version_ids_SaveVersion:
  "version_ids (SaveVersion vid c ts origin s) = vid # version_ids s"
  by (simp add: SaveVersion_def version_ids_def comp_def)

lemma current_versions_SaveVersion:
  "current_versions (SaveVersion vid c ts origin s) =
     [\<lparr>version_id = vid, content = c, timestamp = ts, is_current = True, created_by = origin\<rparr>]"
  by (simp add: SaveVersion_def current_versions_def filter_current_cleared)

lemma version_invariant_SaveVersion:
  assumes "version_invariant s" and "vid \<notin> set (version_ids s)"
  shows "version_invariant (SaveVersion vid c ts origin s)"
proof -
  have d: "distinct (version_ids (SaveVersion vid c ts origin s))"
    using assms by (simp add: version_ids_SaveVersion version_invariant_def)
  have ne: "versions (SaveVersion vid c ts origin s) \<noteq> []"
    by (simp add: SaveVersion_def)
  show ?thesis
    unfolding version_invariant_def
    using d ne by (simp add: current_versions_SaveVersion) (simp add: SaveVersion_def)
qed

lemma extends_history_SaveVersion:
  "extends_history (versions s) (versions (SaveVersion vid c ts origin s))"
  by (simp add: extends_history_def SaveVersion_def comp_def)

lemma reflag_simps [simp]:
  "version_id (reflag vid v) = version_id v"
  "frozen_part (reflag vid v) = frozen_part v"
  "is_current (reflag vid v) \<longleftrightarrow> version_id v = vid"
  by (simp_all add: reflag_def)

lemma reflag_target: "version_id v = vid \<Longrightarrow> reflag vid v = v\<lparr>is_current := True\<rparr>"
  by (simp add: reflag_def)

lemma Revert_unknown: "vid \<notin> set (version_ids s) \<Longrightarrow> Revert vid s = Inl NotFoundError"
proof -
  assume "vid \<notin> set (version_ids s)"
  then have "find (\<lambda>v. version_id v = vid) (versions s) = None"
    by (auto simp: find_None_iff version_ids_def)
  then show ?thesis by (simp add: Revert_def)
qed

lemma Revert_Inr:
  assumes "Revert vid s = Inr s'"
  obtains target where "find (\<lambda>v. version_id v = vid) (versions s) = Some target"
    and "s' = s\<lparr>versions := map (reflag vid) (versions s), html_content := content target,
                 current_version_id := Some vid\<rparr>"
  using assms unfolding Revert_def
  by (auto split: option.splits)

lemma filter_current_reflag:
  assumes "distinct (map version_id vs)" and "find (\<lambda>v. version_id v = vid) vs = Some target"
  shows "filter is_current (map (reflag vid) vs) = [target\<lparr>is_current := True\<rparr>]"
  using assms
proof (induction vs)
  case Nil
  then show ?case by simp
next
  case (Cons v vs)
  show ?case
  proof (cases "version_id v = vid")
    case True
    with Cons.prems have t: "target = v" and "vid \<notin> version_id ` set vs" by auto
    then have "filter is_current (map (reflag vid) vs) = []"
      by (auto simp: filter_empty_conv)
    with True t show ?thesis by (simp add: reflag_target)
  next
    case False
    with Cons show ?thesis by simp
  qed
qed

lemma version_invariant_Revert:
  assumes "version_invariant s" and "Revert vid s = Inr s'"
  shows "version_invariant s'"
proof -
  from assms(2) obtain target where f: "find (\<lambda>v. version_id v = vid) (versions s) = Some target"
    and s': "s' = s\<lparr>versions := map (reflag vid) (versions s), html_content := content target,
                 current_version_id := Some vid\<rparr>"
    by (rule Revert_Inr)
  from assms(1) have d: "distinct (map version_id (versions s))"
    by (simp add: version_invariant_def version_ids_def)
  from f have ne: "versions s \<noteq> []" by auto
  have ids: "version_ids s' = version_ids s"
    by (simp add: s' version_ids_def comp_def)
  have cur: "current_versions s' = [target\<lparr>is_current := True\<rparr>]"
    using filter_current_reflag [OF d f] by (simp add: s' current_versions_def)
  from f have "version_id target = vid" by (auto simp: find_Some_iff)
  with d ne ids cur show ?thesis
    unfolding version_invariant_def by (simp add: version_ids_def) (simp add: s')
qed

lemma extends_history_Revert:
  assumes "Revert vid s = Inr s'"
  shows "extends_history (versions s) (versions s')"
proof -
  from assms obtain target where
    "find (\<lambda>v. version_id v = vid) (versions s) = Some target" and
    "s' = s\<lparr>versions := map (reflag vid) (versions s), html_content := content target,
                 current_version_id := Some vid\<rparr>"
    by (rule Revert_Inr)
  then show ?thesis by (simp add: extends_history_def comp_def)
qed

lemma apply_store_op_invariant:
  assumes "version_invariant s" and "allocates_fresh_id op s" and "apply_store_op op s = Inr s'"
  shows "version_invariant s' \<and> extends_history (versions s) (versions s')"
proof (cases op)
  case (InitialRender vid c ts)
  with assms show ?thesis
    using version_invariant_SaveVersion extends_history_SaveVersion by auto
next
  case (AIModification vid c ts)
  with assms show ?thesis
    using version_invariant_SaveVersion extends_history_SaveVersion by auto
next
  case (ManualSave vid c ts)
  with assms show ?thesis
    using version_invariant_SaveVersion extends_history_SaveVersion by auto
next
  case (RevertTo vid)
  with assms show ?thesis
    using version_invariant_Revert extends_history_Revert by auto
qed

lemma reachable_slide_invariant: "reachable_slide s \<Longrightarrow> version_invariant s"
proof (induction rule: reachable_slide.induct)
  case (fresh n t)
  show ?case by (rule version_invariant_new_slide)
next
  case (step s op s')
  then show ?case using apply_store_op_invariant by blast
qed


lemma slide_two_versions_eq:
  "slide_two_versions =
     \<lparr>order = 3, slide_title = ''Pricing'', html_content = ''<h1>B</h1>'',
      current_version_id = Some ''v2'',
      versions =
        [\<lparr>version_id = ''v2'', content = ''<h1>B</h1>'', timestamp = ''t2'',
          is_current = True, created_by = ''AI-modification''\<rparr>,
         \<lparr>version_id = ''v1'', content = ''<h1>A</h1>'', timestamp = ''t1'',
          is_current = False, created_by = ''system''\<rparr>]\<rparr>"
  by (simp add: slide_two_versions_def SaveVersion_def new_slide_def)

lemma Revert_slide_two_versions: "Revert ''v1'' slide_two_versions = Inr slide_reverted"
  by (simp add: slide_two_versions_eq Revert_def reflag_def slide_reverted_def)

lemma reachable_slide_two_versions: "reachable_slide slide_two_versions"
proof -
  have 0: "reachable_slide (new_slide 3 ''Pricing'')" by (rule reachable_slide.fresh)
  have 1: "reachable_slide (SaveVersion ''v1'' ''<h1>A</h1>'' ''t1'' ''system'' (new_slide 3 ''Pricing''))"
    by (rule reachable_slide.step [OF 0, of "InitialRender ''v1'' ''<h1>A</h1>'' ''t1''"])
      (simp_all add: version_ids_def new_slide_def)
  show ?thesis
    unfolding slide_two_versions_def
    by (rule reachable_slide.step [OF 1, of "AIModification ''v2'' ''<h1>B</h1>'' ''t2''"])
      (simp_all add: version_ids_SaveVersion, simp add: version_ids_def new_slide_def)
qed


text \<open>
  Claim C4. Every slide the four operations can produce satisfies the version invariant: once
  it has a version, exactly one entry is current. Each operation (initial render, AI
  modification, manual save, revert) preserves the invariant and keeps every entry that
  existed, with its identifier, content, timestamp and origin unchanged.
\<close>

theorem exactly_one_current_version:
  "(reachable_slide s \<longrightarrow>
      version_invariant s \<and>
      (versions s \<noteq> [] \<longrightarrow> length (filter is_current (versions s)) = 1)) \<and>
   (version_invariant s \<and> allocates_fresh_id op s \<and> apply_store_op op s = Inr s' \<longrightarrow>
      version_invariant s' \<and>
      (versions s' \<noteq> [] \<longrightarrow> length (filter is_current (versions s')) = 1) \<and>
      extends_history (versions s) (versions s'))"
proof -
  have one: "version_invariant x \<Longrightarrow> versions x \<noteq> [] \<Longrightarrow>
      length (filter is_current (versions x)) = 1" for x
    by (simp add: version_invariant_def current_versions_def)
  show ?thesis
    using reachable_slide_invariant [of s] apply_store_op_invariant [of s op s'] one
    by blast
qed


theorem exactly_one_current_version_witness:
  "length (filter is_current (versions slide_two_versions)) = 1 \<and>
   length (filter is_current (versions slide_reverted)) = 1 \<and>
   extends_history (versions slide_two_versions) (versions slide_reverted)"
proof -
  have r: "reachable_slide slide_two_versions" by (rule reachable_slide_two_versions)
  have ne: "versions slide_two_versions \<noteq> []" by (simp add: slide_two_versions_eq)
  have ne': "versions slide_reverted \<noteq> []" by (simp add: slide_reverted_def)
  have op: "apply_store_op (RevertTo ''v1'') slide_two_versions = Inr slide_reverted"
    by (simp add: Revert_slide_two_versions)
  have fr: "allocates_fresh_id (RevertTo ''v1'') slide_two_versions" by simp
  from exactly_one_current_version [of slide_two_versions "RevertTo ''v1''" slide_reverted]
    r ne ne' op fr
  show ?thesis by blast
qed


text \<open>
  Claim C3. A revert that succeeds makes the target the one current version (so the version
  that was current is no longer), leaves the number of entries and every entry's identifier,
  content, timestamp and origin as they were, and the slide then serves the target's
  content; an unknown identifier is \<open>NotFoundError\<close>. The page shows the revert button
  only for versions that are not current.
\<close>

theorem Revert_flips_current:
  assumes "version_invariant s" and "Revert vid s = Inr s'"
  shows "(\<exists>target. find (\<lambda>v. version_id v = vid) (versions s) = Some target \<and>
            current_versions s' = [target\<lparr>is_current := True\<rparr>] \<and>
            html_content s' = content target) \<and>
         current_version_id s' = Some vid \<and>
         length (versions s') = length (versions s) \<and>
         map frozen_part (versions s') = map frozen_part (versions s) \<and>
         (\<forall>i < length (versions s).
            is_current (versions s' ! i) \<longleftrightarrow> version_id (versions s ! i) = vid) \<and>
         version_invariant s' \<and>
         (\<forall>u. u \<notin> set (version_ids s) \<longrightarrow> Revert u s = Inl NotFoundError) \<and>
         (\<forall>v. revert_offered v \<longleftrightarrow> \<not> is_current v) \<and>
         (\<forall>st u. revert_button_shown u st \<longrightarrow>
            (\<exists>v \<in> set (slideVersions st). version_id v = u \<and> \<not> is_current v))"
proof -
  from assms(2) obtain target where f: "find (\<lambda>v. version_id v = vid) (versions s) = Some target"
    and s': "s' = s\<lparr>versions := map (reflag vid) (versions s), html_content := content target,
                 current_version_id := Some vid\<rparr>"
    by (rule Revert_Inr)
  from assms(1) have d: "distinct (map version_id (versions s))"
    by (simp add: version_invariant_def version_ids_def)
  have cur: "current_versions s' = [target\<lparr>is_current := True\<rparr>]"
    using filter_current_reflag [OF d f] by (simp add: s' current_versions_def)
  have a: "\<exists>target. find (\<lambda>v. version_id v = vid) (versions s) = Some target \<and>
            current_versions s' = [target\<lparr>is_current := True\<rparr>] \<and>
            html_content s' = content target"
    using f cur by (simp add: s')
  have b: "current_version_id s' = Some vid" "length (versions s') = length (versions s)"
    "map frozen_part (versions s') = map frozen_part (versions s)"
    by (simp_all add: s' comp_def)
  have c: "\<forall>i < length (versions s).
            is_current (versions s' ! i) \<longleftrightarrow> version_id (versions s ! i) = vid"
    by (simp add: s')
  have e: "\<forall>st u. revert_button_shown u st \<longrightarrow>
            (\<exists>v \<in> set (slideVersions st). version_id v = u \<and> \<not> is_current v)"
    by (auto simp: revert_button_shown_def revert_offered_def list_ex_iff)
  from a b c e version_invariant_Revert [OF assms] Revert_unknown show ?thesis
    by (simp add: revert_offered_def)
qed

theorem Revert_flips_current_witness:
  "Revert ''v1'' slide_two_versions = Inr slide_reverted \<and>
   html_content slide_reverted = ''<h1>A</h1>'' \<and>
   length (versions slide_reverted) = length (versions slide_two_versions) \<and>
   map frozen_part (versions slide_reverted) = map frozen_part (versions slide_two_versions) \<and>
   map is_current (versions slide_two_versions) = [True, False] \<and>
   map is_current (versions slide_reverted) = [False, True]"
proof -
  have r: "Revert ''v1'' slide_two_versions = Inr slide_reverted"
    by (rule Revert_slide_two_versions)
  have inv: "version_invariant slide_two_versions"
    using reachable_slide_invariant reachable_slide_two_versions by blast
  note t = Revert_flips_current [OF inv r]
  from t have "length (versions slide_reverted) = length (versions slide_two_versions)"
    and "map frozen_part (versions slide_reverted) = map frozen_part (versions slide_two_versions)"
    by blast+
  then show ?thesis
    using r by (simp add: slide_reverted_def slide_two_versions_eq)
qed

section \<open>Properties of deck progress\<close>

lemma sum_list_bump:
  fixes xs :: "nat list"
  shows "i < length xs \<Longrightarrow> sum_list (xs[i := Suc (xs ! i)]) = Suc (sum_list xs)"
proof (induction xs arbitrary: i)
  case Nil
  then show ?case by simp
next
  case (Cons x xs)
  then show ?case by (cases i) simp_all
qed

lemma sum_list_at_most:
  fixes xs :: "nat list"
  shows "list_all (\<lambda>k. k \<le> 3) xs \<Longrightarrow> sum_list xs \<le> 3 * length xs"
  by (induction xs) auto

lemma job_step_length: "length (stages_done (job_step e j)) = length (stages_done j)"
  by (cases e) simp_all

lemma job_step_sum: "sum_list (stages_done j) \<le> sum_list (stages_done (job_step e j))"
  by (cases e) (simp_all add: sum_list_bump)

lemma job_step_stages_bounded:
  "list_all (\<lambda>k. k \<le> 3) (stages_done j) \<Longrightarrow> list_all (\<lambda>k. k \<le> 3) (stages_done (job_step e j))"
proof (cases e)
  case (StageComplete i)
  assume b: "list_all (\<lambda>k. k \<le> 3) (stages_done j)"
  show ?thesis
  proof (cases "terminal (job_status j) \<or> i \<ge> length (stages_done j) \<or> stages_done j ! i \<ge> 3")
    case True
    with b StageComplete show ?thesis by auto
  next
    case False
    then have "stages_done j ! i + 1 \<le> 3" by simp
    with b have "list_all (\<lambda>k. k \<le> 3) ((stages_done j)[i := stages_done j ! i + 1])"
      by (auto simp: list_all_iff dest: set_update_subset_insert [THEN subsetD])
    with False StageComplete show ?thesis by simp
  qed
next
  case (MoveTo st)
  assume "list_all (\<lambda>k. k \<le> 3) (stages_done j)"
  with MoveTo show ?thesis by simp
qed

lemma job_progress_mono:
  assumes "length (stages_done j') = length (stages_done j)"
    and "sum_list (stages_done j) \<le> sum_list (stages_done j')"
  shows "job_progress j \<le> job_progress j'"
proof (cases "length (stages_done j) = 0")
  case True
  with assms show ?thesis by (simp add: job_progress_def)
next
  case False
  let ?n = "length (stages_done j)"
  from assms(2) have "2 * (sum_list (stages_done j) * 100) + ?n * 3
      \<le> 2 * (sum_list (stages_done j') * 100) + ?n * 3" by simp
  then have "(2 * (sum_list (stages_done j) * 100) + ?n * 3) div (2 * (?n * 3))
      \<le> (2 * (sum_list (stages_done j') * 100) + ?n * 3) div (2 * (?n * 3))"
    by (rule div_le_mono)
  with False assms(1) show ?thesis by (simp add: job_progress_def Let_def)
qed

lemma job_step_progress: "job_progress j \<le> job_progress (job_step e j)"
  by (rule job_progress_mono) (simp_all add: job_step_length job_step_sum)

lemma job_progress_at_most:
  assumes "list_all (\<lambda>k. k \<le> 3) (stages_done j)"
  shows "job_progress j \<le> 100"
proof (cases "length (stages_done j) = 0")
  case True
  then show ?thesis by (simp add: job_progress_def)
next
  case False
  let ?n = "length (stages_done j)"
  let ?c = "sum_list (stages_done j)"
  from sum_list_at_most [OF assms] have "?c \<le> 3 * ?n" .
  then have "2 * (?c * 100) + ?n * 3 \<le> 100 * (2 * (?n * 3)) + ?n * 3" by simp
  then have "(2 * (?c * 100) + ?n * 3) div (2 * (?n * 3))
      \<le> (100 * (2 * (?n * 3)) + ?n * 3) div (2 * (?n * 3))"
    by (rule div_le_mono)
  also from False have "(100 * (2 * (?n * 3)) + ?n * 3) div (2 * (?n * 3)) = 100"
    by simp
  finally show ?thesis using False by (simp add: job_progress_def Let_def)
qed

lemma progress_reads_hd: "hd (progress_reads es j) = job_progress j"
  by (cases es) simp_all

lemma progress_reads_not_Nil: "progress_reads es j \<noteq> []"
  by (cases es) simp_all

lemma sorted_progress_reads: "sorted (progress_reads es j)"
proof (induction es arbitrary: j)
  case Nil
  show ?case by simp
next
  case (Cons e es)
  obtain p ps where ps: "progress_reads es (job_step e j) = p # ps"
    using progress_reads_not_Nil by (cases "progress_reads es (job_step e j)") auto
  with progress_reads_hd [of es "job_step e j"] have p: "p = job_progress (job_step e j)" by simp
  from Cons.IH [of "job_step e j"] ps have s: "sorted (p # ps)" by simp
  have "job_progress j \<le> p" using p job_step_progress by simp
  with s have "sorted (job_progress j # p # ps)" by (auto intro: order_trans)
  with ps show ?case by simp
qed

lemma bounded_progress_reads:
  "list_all (\<lambda>k. k \<le> 3) (stages_done j) \<Longrightarrow> list_all (\<lambda>p. p \<le> 100) (progress_reads es j)"
proof (induction es arbitrary: j)
  case Nil
  then show ?case by (simp add: job_progress_at_most)
next
  case (Cons e es)
  from Cons.prems have "list_all (\<lambda>k. k \<le> 3) (stages_done (job_step e j))"
    by (rule job_step_stages_bounded)
  with Cons.IH Cons.prems show ?case by (simp add: job_progress_at_most)
qed

lemma enrich_progress:
  "status deck = ''generating'' \<or> status deck = ''modifying'' \<Longrightarrow>
   progress (enrich deck (Some sd)) = progress sd"
  by (simp add: enrich_def)

text \<open>
  Claim C6. The progress values that successive status reads of one generation pass see
  never decrease, from a new job or from any job, whatever happens in between; they are
  whole numbers from 0 to 100; and the deck list shows the progress it read.
\<close>

theorem progress_never_decreases:
  "sorted (progress_reads es (new_job n)) \<and>
   list_all (\<lambda>p. p \<le> 100) (progress_reads es (new_job n)) \<and>
   sorted (progress_reads es j) \<and>
   job_progress j \<le> job_progress (job_step e j) \<and>
   (list_all (\<lambda>k. k \<le> 3) (stages_done j) \<longrightarrow>
      list_all (\<lambda>p. p \<le> 100) (progress_reads es j)) \<and>
   (status deck = ''generating'' \<or> status deck = ''modifying'' \<longrightarrow>
      progress (enrich deck (Some (job_snapshot did created j))) = Some (job_progress j))"
proof -
  have "list_all (\<lambda>k. k \<le> 3) (stages_done (new_job n))"
    by (simp add: new_job_def list_all_iff)
  then have "list_all (\<lambda>p. p \<le> 100) (progress_reads es (new_job n))"
    by (rule bounded_progress_reads)
  moreover have "progress (job_snapshot did created j) = Some (job_progress j)"
    by (simp add: job_snapshot_def)
  ultimately show ?thesis
    using sorted_progress_reads job_step_progress bounded_progress_reads enrich_progress
    by simp
qed


lemma progress_reads_job_events:
  "progress_reads job_events (new_job 2) = [0, 0, 17, 33, 50, 50, 50]"
  by code_simp

theorem progress_never_decreases_witness:
  "progress_reads job_events (new_job 2) = [0, 0, 17, 33, 50, 50, 50] \<and>
   sorted (progress_reads job_events (new_job 2)) \<and>
   list_all (\<lambda>p. p \<le> 100) (progress_reads job_events (new_job 2))"
  using progress_never_decreases [of job_events 2] progress_reads_job_events
  by blast

section \<open>Properties of slide modification\<close>

























text \<open>
  Two remarks on the preview. A status read that finds the deck \<open>completed\<close> releases the
  slides. Between the click and the response nothing is disabled: \<open>isModifying\<close> is set
  but no control reads it, so a second click sends a second request for the same slide.
\<close>

lemma poll_releases_slides:
  "modifyingSlides
     (preview_step (PollTick (Some ''completed'') True (Some ''completed'') (DataOk three_slides))
        modifying_third_slide) = {}"
  by (simp add: pollTick_def)

lemma modify_not_gated_before_response:
  "isModifying (preview_step ClickModify third_slide_shown) \<and>
   \<not> modify_disabled (preview_step ClickModify third_slide_shown) \<and>
   snd (handleModifySlide (preview_step ClickModify third_slide_shown)) =
     [Modify 3 ''make it bolder'']"
proof -
  have t: "trim '' make it bolder '' = ''make it bolder''"
    by (simp add: trim_def js_whitespace_def)
  have d: "\<not> modify_disabled third_slide_shown"
    by (simp add: modify_disabled_def third_slide_shown_def initial_preview_def t)
  then have s: "preview_step ClickModify third_slide_shown = third_slide_shown\<lparr>isModifying := True\<rparr>"
    by (simp add: handleModifySlide_def third_slide_shown_def initial_preview_def t Let_def)
  show ?thesis
    unfolding s
    by (simp add: modify_disabled_def handleModifySlide_def third_slide_shown_def
        initial_preview_def t Let_def)
qed

end
